theory Spec2Isabelle
  imports Complex_Main "HOL-Library.Sublist"
begin

section \<open>Python values and library functions\<close>

text \<open>
  The value that \<^verbatim>\<open>json.loads\<close> returns: \<^verbatim>\<open>None\<close>, a bool, an int, a float, a str,
  a list or a dict. A dict is an association list read with \<open>map_of\<close>.
\<close>

datatype json =
    JNull
  | JBool bool
  | JInt int
  | JFloat real
  | JStr string
  | JArr "json list"
  | JObj "(string \<times> json) list"

text \<open>
  An exception is one of \<^verbatim>\<open>json.JSONDecodeError\<close> (the only class an inner handler of
  the agents names) or any other subclass of \<^verbatim>\<open>Exception\<close>; the string is \<^verbatim>\<open>str(e)\<close>.
\<close>

datatype exc = JSONDecodeError string | Exception string

fun str_exc :: "exc \<Rightarrow> string" where
  "str_exc (JSONDecodeError m) = m"
| "str_exc (Exception m) = m"

text \<open>
  What \<^verbatim>\<open>self.model(messages)\<close> returns: an object with a \<^verbatim>\<open>content\<close> attribute that
  is a str or \<^verbatim>\<open>None\<close> (\<open>ChatMessage\<close>) or a value of another type without a \<^verbatim>\<open>strip\<close>
  method, given by the name of the type (\<open>NonTextMessage\<close>); or any other object, given
  by its \<^verbatim>\<open>str(response)\<close>.
\<close>

datatype llm_response =
    ChatMessage "string option"
  | NonTextMessage string
  | PlainReply string

text \<open>
  The functions of the Python runtime, \<^verbatim>\<open>json\<close> and \<^verbatim>\<open>pydantic\<close> that the agents call
  and whose code is not part of the repository. Every theorem below holds for all of
  them. \<open>str_strip\<close> is \<^verbatim>\<open>str.strip()\<close>, which removes the white space of Unicode at both
  ends. \<open>validate_*\<close> is the validation of one field of the declared type (\<open>None\<close>:
  the value is refused); \<open>validation_error\<close> is the text of the \<^verbatim>\<open>ValidationError\<close>
  raised for a model and its arguments.
\<close>

record pylib =
  str_strip :: "string \<Rightarrow> string"
  json_loads :: "string \<Rightarrow> exc + json"
  py_float :: "json \<Rightarrow> exc + real"
  py_repr :: "json \<Rightarrow> string"
  validate_str :: "json \<Rightarrow> string option"
  validate_str_list :: "json \<Rightarrow> string list option"
  validate_bool :: "json \<Rightarrow> bool option"
  validate_opt_str :: "json \<Rightarrow> string option option"
  validation_error :: "string \<Rightarrow> json list \<Rightarrow> string"

text \<open>Sequencing of two computations that may raise.\<close>

definition and_then :: "exc + 'a \<Rightarrow> ('a \<Rightarrow> exc + 'b) \<Rightarrow> exc + 'b" where
  "and_then m f = (case m of Inl e \<Rightarrow> Inl e | Inr v \<Rightarrow> f v)"

fun py_type_name :: "json \<Rightarrow> string" where
  "py_type_name JNull = ''NoneType''"
| "py_type_name (JBool _) = ''bool''"
| "py_type_name (JInt _) = ''int''"
| "py_type_name (JFloat _) = ''float''"
| "py_type_name (JStr _) = ''str''"
| "py_type_name (JArr _) = ''list''"
| "py_type_name (JObj _) = ''dict''"

definition no_attribute :: "string \<Rightarrow> string \<Rightarrow> exc" where
  "no_attribute ty attr =
     Exception ([CHR 0x27] @ ty @ ''' object has no attribute '' @ [CHR 0x27] @ attr @ [CHR 0x27])"

text \<open>\<^verbatim>\<open>data.get(key, default)\<close>: an \<^verbatim>\<open>AttributeError\<close> unless \<open>data\<close> is a dict.\<close>

definition dict_get :: "json \<Rightarrow> string \<Rightarrow> json \<Rightarrow> exc + json" where
  "dict_get data key dflt =
     (case data of
        JObj kvs \<Rightarrow> Inr (case map_of kvs key of Some v \<Rightarrow> v | None \<Rightarrow> dflt)
      | _ \<Rightarrow> Inl (no_attribute (py_type_name data) ''get''))"

text \<open>Truth value of an \<^verbatim>\<open>Optional[str]\<close>: \<^verbatim>\<open>None\<close> and the empty string are false.\<close>

fun truthy :: "string option \<Rightarrow> bool" where
  "truthy None = False"
| "truthy (Some s) = (s \<noteq> [])"

subsection \<open>str.startswith, str.endswith\<close>

definition startswith :: "string \<Rightarrow> string \<Rightarrow> bool" where
  "startswith s p = (take (length p) s = p)"

definition endswith :: "string \<Rightarrow> string \<Rightarrow> bool" where
  "endswith s p = (length p \<le> length s \<and> drop (length s - length p) s = p)"

section \<open>schema.py\<close>

datatype AgentDecision = ACCEPT | REJECT

record PlannerOutput =
  reasoning :: string
  search_queries :: "string list"
  need_visual_understanding :: bool

record ReasonerOutput =
  draft_answer :: string
  citations :: "string list"
  reasoning_trace :: string

record ReviewerOutput =
  confidence_score :: real
  decision :: AgentDecision
  critique :: "string option"
  feedback_for_retriever :: "string option"

text \<open>
  Construction of a model from values that come out of the decoded JSON: pydantic
  validates every field and raises one \<^verbatim>\<open>ValidationError\<close> when a field is refused.
  A model built from values that already have the declared types (the literals and the
  str arguments of the handlers) is written as a record.
\<close>

definition PlannerOutput_init :: "pylib \<Rightarrow> json \<Rightarrow> json \<Rightarrow> json \<Rightarrow> exc + PlannerOutput" where
  "PlannerOutput_init L r s n =
     (case (validate_str L r, validate_str_list L s, validate_bool L n) of
        (Some r', Some s', Some n') \<Rightarrow>
          Inr \<lparr>reasoning = r', search_queries = s', need_visual_understanding = n'\<rparr>
      | _ \<Rightarrow> Inl (Exception (validation_error L ''PlannerOutput'' [r, s, n])))"

definition ReasonerOutput_init :: "pylib \<Rightarrow> json \<Rightarrow> json \<Rightarrow> json \<Rightarrow> exc + ReasonerOutput" where
  "ReasonerOutput_init L t a c =
     (case (validate_str L t, validate_str L a, validate_str_list L c) of
        (Some t', Some a', Some c') \<Rightarrow>
          Inr \<lparr>draft_answer = a', citations = c', reasoning_trace = t'\<rparr>
      | _ \<Rightarrow> Inl (Exception (validation_error L ''ReasonerOutput'' [t, a, c])))"

definition ReviewerOutput_init ::
  "pylib \<Rightarrow> real \<Rightarrow> AgentDecision \<Rightarrow> json \<Rightarrow> json \<Rightarrow> exc + ReviewerOutput" where
  "ReviewerOutput_init L score dec c f =
     (case (validate_opt_str L c, validate_opt_str L f) of
        (Some c', Some f') \<Rightarrow>
          Inr \<lparr>confidence_score = score, decision = dec, critique = c',
               feedback_for_retriever = f'\<rparr>
      | _ \<Rightarrow> Inl (Exception (validation_error L ''ReviewerOutput'' [c, f])))"

text \<open>\<^verbatim>\<open>AgentDecision(value)\<close>: the member with that value, or a \<^verbatim>\<open>ValueError\<close>.\<close>

definition AgentDecision_call :: "pylib \<Rightarrow> json \<Rightarrow> exc + AgentDecision" where
  "AgentDecision_call L v =
     (if v = JStr ''ACCEPT'' then Inr ACCEPT
      else if v = JStr ''REJECT'' then Inr REJECT
      else Inl (Exception (py_repr L v @ '' is not a valid AgentDecision'')))"

section \<open>The agents\<close>

text \<open>
  \<^verbatim>\<open>_clean_json_output\<close> is the same method in the planner, the reasoner and the
  reviewer.
\<close>

definition clean_json_output :: "pylib \<Rightarrow> string \<Rightarrow> string" where
  "clean_json_output L raw_output =
     (let r0 = str_strip L raw_output;
          r1 = (if startswith r0 ''```json'' then drop 7 r0 else r0);
          r2 = (if startswith r1 ''```'' then drop 3 r1 else r1);
          r3 = (if endswith r2 ''```'' then take (length r2 - 3) r2 else r2)
      in str_strip L r3)"

text \<open>
  The first statements of each \<^verbatim>\<open>try\<close> block: read the content of the response and
  clean it. \<^verbatim>\<open>raw_output.strip()\<close> raises an \<^verbatim>\<open>AttributeError\<close> when the content is not
  a str (\<open>response_content\<close> is \<open>None\<close> then, and \<open>content_type\<close> names its type).
\<close>

definition response_content :: "llm_response \<Rightarrow> string option" where
  "response_content response =
     (case response of
        ChatMessage c \<Rightarrow> c
      | NonTextMessage ty \<Rightarrow> None
      | PlainReply s \<Rightarrow> Some s)"

definition content_type :: "llm_response \<Rightarrow> string" where
  "content_type response =
     (case response of
        ChatMessage None \<Rightarrow> ''NoneType''
      | ChatMessage (Some s) \<Rightarrow> ''str''
      | NonTextMessage ty \<Rightarrow> ty
      | PlainReply s \<Rightarrow> ''str'')"

definition content_and_cleaned :: "pylib \<Rightarrow> llm_response \<Rightarrow> exc + string \<times> string" where
  "content_and_cleaned L response =
     (case response_content response of
        None \<Rightarrow> Inl (no_attribute (content_type response) ''strip'')
      | Some content \<Rightarrow> Inr (content, clean_json_output L content))"

subsection \<open>agents/planner\_agent.py\<close>

definition plan_decode :: "pylib \<Rightarrow> string \<Rightarrow> string \<Rightarrow> exc + PlannerOutput" where
  "plan_decode L user_query cleaned_json =
     and_then (json_loads L cleaned_json) (\<lambda>data.
     and_then (dict_get data ''reasoning'' (JStr ''No reasoning provided.'')) (\<lambda>r.
     and_then (dict_get data ''search_queries'' (JArr [JStr user_query])) (\<lambda>s.
     and_then (dict_get data ''need_visual_understanding'' (JBool False)) (\<lambda>n.
     PlannerOutput_init L r s n))))"

text \<open>The inner \<^verbatim>\<open>try\<close> with its \<^verbatim>\<open>except json.JSONDecodeError\<close>.\<close>

definition plan_inner :: "pylib \<Rightarrow> string \<Rightarrow> string \<Rightarrow> exc + PlannerOutput" where
  "plan_inner L user_query cleaned_json =
     (case plan_decode L user_query cleaned_json of
        Inl (JSONDecodeError m) \<Rightarrow>
          Inr \<lparr>reasoning = ''JSON parsing failed, using original query.'',
               search_queries = [user_query], need_visual_understanding = False\<rparr>
      | Inl (Exception m) \<Rightarrow> Inl (Exception m)
      | Inr output \<Rightarrow> Inr output)"

text \<open>
  \<^verbatim>\<open>PlannerAgent.plan\<close>, given the outcome of the call of the model. \<open>Inl\<close> in the
  result is an exception that leaves the method.
\<close>

definition PlannerAgent_plan :: "pylib \<Rightarrow> string \<Rightarrow> exc + llm_response \<Rightarrow> exc + PlannerOutput" where
  "PlannerAgent_plan L user_query outcome =
     (case and_then outcome (\<lambda>response.
           and_then (content_and_cleaned L response) (\<lambda>(content, cleaned_json).
           plan_inner L user_query cleaned_json)) of
        Inr output \<Rightarrow> Inr output
      | Inl e \<Rightarrow>
          Inr \<lparr>reasoning = ''System error: '' @ str_exc e,
               search_queries = [user_query], need_visual_understanding = False\<rparr>)"

subsection \<open>agents/reasoner\_agent.py\<close>

text \<open>
  \<^verbatim>\<open>_format_context\<close> with \<^verbatim>\<open>vl_insights = []\<close>, the only value both pipelines pass.
\<close>

definition format_context :: "string \<Rightarrow> string" where
  "format_context retrieved_text =
     ''### 1. Textual Evidence (from Papers):\<newline>''
     @ (if retrieved_text \<noteq> [] then retrieved_text else ''No text evidence found.'')
     @ ''\<newline>\<newline>### 2. Visual Evidence (from Figures):\<newline>''
     @ ''No visual evidence provided.''"

definition reason_decode :: "pylib \<Rightarrow> string \<Rightarrow> exc + ReasonerOutput" where
  "reason_decode L cleaned_json =
     and_then (json_loads L cleaned_json) (\<lambda>data.
     and_then (dict_get data ''reasoning_trace'' (JStr ''No trace provided.'')) (\<lambda>t.
     and_then (dict_get data ''draft_answer'' (JStr ''No answer provided.'')) (\<lambda>a.
     and_then (dict_get data ''citations'' (JArr [])) (\<lambda>c.
     ReasonerOutput_init L t a c))))"

definition reason_inner :: "pylib \<Rightarrow> string \<Rightarrow> string \<Rightarrow> exc + ReasonerOutput" where
  "reason_inner L content cleaned_json =
     (case reason_decode L cleaned_json of
        Inl (JSONDecodeError m) \<Rightarrow>
          Inr \<lparr>draft_answer = content, citations = [], reasoning_trace = ''JSON Parse Error''\<rparr>
      | Inl (Exception m) \<Rightarrow> Inl (Exception m)
      | Inr output \<Rightarrow> Inr output)"

definition ReasonerAgent_run :: "pylib \<Rightarrow> exc + llm_response \<Rightarrow> exc + ReasonerOutput" where
  "ReasonerAgent_run L outcome =
     (case and_then outcome (\<lambda>response.
           and_then (content_and_cleaned L response) (\<lambda>(content, cleaned_json).
           reason_inner L content cleaned_json)) of
        Inr output \<Rightarrow> Inr output
      | Inl e \<Rightarrow>
          Inr \<lparr>draft_answer = ''An error occurred while generating the answer: '' @ str_exc e,
               citations = [], reasoning_trace = ''System Error''\<rparr>)"

subsection \<open>agents/reviewer\_agent.py\<close>

definition review_decode :: "pylib \<Rightarrow> string \<Rightarrow> exc + ReviewerOutput" where
  "review_decode L cleaned_json =
     and_then (json_loads L cleaned_json) (\<lambda>data.
     and_then (dict_get data ''confidence_score'' (JFloat 0)) (\<lambda>sv.
     and_then (py_float L sv) (\<lambda>score.
     and_then (dict_get data ''decision'' (JStr ''REJECT'')) (\<lambda>dv.
     and_then (AgentDecision_call L dv) (\<lambda>dec.
     and_then (dict_get data ''critique'' (JStr ''No critique provided.'')) (\<lambda>c.
     and_then (dict_get data ''feedback_for_retriever'' JNull) (\<lambda>f.
     ReviewerOutput_init L score dec c f)))))))"

definition ReviewerAgent_review :: "pylib \<Rightarrow> exc + llm_response \<Rightarrow> exc + ReviewerOutput" where
  "ReviewerAgent_review L outcome =
     (case and_then outcome (\<lambda>response.
           and_then (content_and_cleaned L response) (\<lambda>(content, cleaned_json).
           review_decode L cleaned_json)) of
        Inr output \<Rightarrow> Inr output
      | Inl e \<Rightarrow>
          Inr \<lparr>confidence_score = 0, decision = REJECT,
               critique = Some (''System error during review: '' @ str_exc e),
               feedback_for_retriever = Some ''System error, please retry aggregation.''\<rparr>)"

subsection \<open>agents/retriever\_agent.py\<close>

text \<open>
  \<^verbatim>\<open>RetrieverAgent.run\<close>, given the outcome of \<^verbatim>\<open>self.agent.run(task)\<close>: the
  evidence text the agent answers with, or the exception it raises.
\<close>

definition RetrieverAgent_run :: "exc + string \<Rightarrow> exc + string" where
  "RetrieverAgent_run outcome =
     (case outcome of
        Inr result \<Rightarrow> Inr result
      | Inl e \<Rightarrow> Inr (''Retriever failed: '' @ str_exc e))"

section \<open>The pipelines: main.py and app.py\<close>

text \<open>
  The external capabilities. Each call may change the outside world \<open>'w\<close> and either
  raises or returns. A model is called with messages built from the values given here
  (the planner's from the query; the reasoner's from the query and the formatted
  context; the reviewer's from the query, the draft answer and its citations).
\<close>

record 'w capabilities =
  planner_model :: "string \<Rightarrow> 'w \<Rightarrow> (exc + llm_response) \<times> 'w"
  reasoner_model :: "string \<Rightarrow> string \<Rightarrow> 'w \<Rightarrow> (exc + llm_response) \<times> 'w"
  reviewer_model :: "string \<Rightarrow> string \<Rightarrow> string list \<Rightarrow> 'w \<Rightarrow> (exc + llm_response) \<times> 'w"
  agent_run :: "string \<Rightarrow> 'w \<Rightarrow> (exc + string) \<times> 'w"

text \<open>The four agent objects a pipeline calls, as methods on the outside world.\<close>

record 'w agents =
  planner_plan :: "string \<Rightarrow> 'w \<Rightarrow> (exc + PlannerOutput) \<times> 'w"
  retriever_run :: "string \<Rightarrow> 'w \<Rightarrow> (exc + string) \<times> 'w"
  reasoner_run :: "string \<Rightarrow> string \<Rightarrow> 'w \<Rightarrow> (exc + ReasonerOutput) \<times> 'w"
  reviewer_review :: "string \<Rightarrow> ReasonerOutput \<Rightarrow> 'w \<Rightarrow> (exc + ReviewerOutput) \<times> 'w"

text \<open>
  The agents both pipelines construct: \<^verbatim>\<open>PlannerAgent(cfg)\<close>, \<^verbatim>\<open>RetrieverAgent(cfg)\<close>,
  \<^verbatim>\<open>ReasonerAgent(cfg)\<close> and \<^verbatim>\<open>ReviewerAgent(cfg)\<close>.
\<close>

definition scimuse_agents :: "'w capabilities \<Rightarrow> pylib \<Rightarrow> 'w agents" where
  "scimuse_agents C L =
     \<lparr>planner_plan = (\<lambda>user_query w.
        apfst (PlannerAgent_plan L user_query) (planner_model C user_query w)),
      retriever_run = (\<lambda>query w.
        apfst RetrieverAgent_run (agent_run C query w)),
      reasoner_run = (\<lambda>query retriever_result w.
        apfst (ReasonerAgent_run L) (reasoner_model C query (format_context retriever_result) w)),
      reviewer_review = (\<lambda>query reasoner_output w.
        apfst (ReviewerAgent_review L)
          (reviewer_model C query (draft_answer reasoner_output) (citations reasoner_output) w))\<rparr>"

text \<open>
  The calls a pipeline makes to its agents, in the order it makes them. The number is
  the value of \<^verbatim>\<open>current_attempt\<close> at the call; a \<open>ReviewCall\<close> holds the verdict
  returned. \<open>SearchCall\<close> is a call of the retriever in the loop over the planned
  queries, \<open>SupplementalCall\<close> one in the branch of a rejected attempt, with its query
  and the evidence returned.
\<close>

datatype call =
    PlanCall string
  | SearchCall string
  | ReasonCall nat string string
  | ReviewCall nat ReviewerOutput
  | SupplementalCall nat string string

fun is_ReasonCall :: "call \<Rightarrow> bool" where
  "is_ReasonCall (ReasonCall i q c) = True"
| "is_ReasonCall _ = False"

fun is_ReviewCall :: "call \<Rightarrow> bool" where
  "is_ReviewCall (ReviewCall i v) = True"
| "is_ReviewCall _ = False"

fun is_SearchCall :: "call \<Rightarrow> bool" where
  "is_SearchCall (SearchCall q) = True"
| "is_SearchCall _ = False"

fun is_SupplementalCall :: "call \<Rightarrow> bool" where
  "is_SupplementalCall (SupplementalCall i q e) = True"
| "is_SupplementalCall _ = False"

text \<open>
  The local variables of a pipeline, and \<open>calls\<close>, the log of the calls made so far
  (the log is not a variable of the program).
\<close>

record session =
  plan :: "PlannerOutput option"
  aggregated_context :: string
  current_attempt :: nat
  feedback :: "string option"
  final_answer :: "ReasonerOutput option"
  draft_output :: "ReasonerOutput option"
  calls :: "call list"

definition init_session :: session where
  "init_session =
     \<lparr>plan = None, aggregated_context = [], current_attempt = 0, feedback = Some [],
      final_answer = None, draft_output = None, calls = []\<rparr>"

text \<open>
  What main.py hands to \<^verbatim>\<open>console.print\<close> of rich with a value of the run in it, one
  constructor per statement: the panel of the query (line 69), the three lines of the
  plan (75 to 77), a planned search (87), the panel of the draft (116), the decision
  (122), the critique (129), the supplemental search (134), the final answer (143),
  a citation (147) and the last draft of a run that was not accepted (152). A text
  given as a string is read as console markup, where a closing tag without its opening
  tag raises \<^verbatim>\<open>MarkupError\<close>; none of these statements is inside a \<^verbatim>\<open>try\<close>. Line 122
  prints the score after the decision; the text of a float holds no tag, so the line is
  given by the decision. The other statements of the console print a fixed text (line 99
  with the number of the attempt in it); the agents write their notes with the built-in
  \<^verbatim>\<open>print\<close>, which reads no markup.
\<close>

datatype printed =
    QueryPanel string
  | ReasoningLine string
  | QueriesLine "string list"
  | VisualsLine bool
  | SearchingLine string
  | DraftPanel string
  | DecisionLine AgentDecision
  | CritiqueLine "string option"
  | SupplementalLine string
  | FinalMarkdown string
  | SourceLine string
  | LastDraftMarkdown string

text \<open>The console: the exception it raises for what it is given, if any.\<close>

type_synonym console = "printed \<Rightarrow> exc option"

text \<open>
  The two pipelines are the same statements; they differ in three format strings and
  in their output. \<open>CLI\<close> is \<^verbatim>\<open>run_chat_pipeline\<close> of main.py, which prints to the console;
  \<open>GUI\<close> is \<^verbatim>\<open>chat_pipeline\<close> of app.py, which builds its log by string concatenation and
  prints nothing.
\<close>

datatype frontend = CLI console | GUI

fun console_print :: "frontend \<Rightarrow> printed \<Rightarrow> exc + unit" where
  "console_print (CLI K) p = (case K p of None \<Rightarrow> Inr () | Some e \<Rightarrow> Inl e)"
| "console_print GUI p = Inr ()"

fun print_all :: "frontend \<Rightarrow> printed list \<Rightarrow> exc + unit" where
  "print_all F [] = Inr ()"
| "print_all F (p # ps) = and_then (console_print F p) (\<lambda>_. print_all F ps)"

definition max_retries :: nat where
  "max_retries = 2"

definition search_segment :: "string \<Rightarrow> string \<Rightarrow> string" where
  "search_segment query result =
     ''\<newline>--- Search Result for '' @ [CHR 0x27] @ query @ [CHR 0x27] @ '' ---\<newline>''
     @ result @ ''\<newline>''"

fun feedback_note :: "frontend \<Rightarrow> string \<Rightarrow> string" where
  "feedback_note (CLI K) fb =
     ''\<newline>\<newline>(PREVIOUS FEEDBACK: '' @ fb @ ''. Please improve the answer.)''"
| "feedback_note GUI fb = ''\<newline>(Critique from previous turn: '' @ fb @ '')''"

fun supplemental_segment :: "frontend \<Rightarrow> string \<Rightarrow> string" where
  "supplemental_segment (CLI K) evidence =
     ''\<newline>--- Supplemental Evidence ---\<newline>'' @ evidence @ ''\<newline>''"
| "supplemental_segment GUI evidence =
     ''\<newline>--- Supplemental ---\<newline>'' @ evidence @ ''\<newline>''"

definition effective_query :: "frontend \<Rightarrow> string \<Rightarrow> string option \<Rightarrow> string" where
  "effective_query F user_query fb =
     (case fb of
        Some f \<Rightarrow> if f \<noteq> [] then user_query @ feedback_note F f else user_query
      | None \<Rightarrow> user_query)"

text \<open>\<^verbatim>\<open>for query in plan.search_queries\<close>: one retriever call per planned query.\<close>

fun search_loop ::
  "'w agents \<Rightarrow> frontend \<Rightarrow> string list \<Rightarrow> session \<Rightarrow> 'w \<Rightarrow> exc + session \<times> 'w" where
  "search_loop A F [] s w = Inr (s, w)"
| "search_loop A F (query # rest) s w =
     and_then (console_print F (SearchingLine query)) (\<lambda>_.
       case retriever_run A query w of
         (Inl e, w') \<Rightarrow> Inl e
       | (Inr result, w') \<Rightarrow>
           search_loop A F rest
             (s\<lparr>aggregated_context := aggregated_context s @ search_segment query result,
                calls := calls s @ [SearchCall query]\<rparr>) w')"

text \<open>\<^verbatim>\<open>if review.feedback_for_retriever:\<close> with its supplemental search.\<close>

definition supplemental_search ::
  "'w agents \<Rightarrow> frontend \<Rightarrow> string option \<Rightarrow> session \<Rightarrow> 'w \<Rightarrow> exc + session \<times> 'w" where
  "supplemental_search A F fb s w =
     (case fb of
        None \<Rightarrow> Inr (s, w)
      | Some fq \<Rightarrow>
          if fq \<noteq> [] then
            and_then (console_print F (SupplementalLine fq)) (\<lambda>_.
              case retriever_run A fq w of
                (Inl e, w') \<Rightarrow> Inl e
              | (Inr new_evidence, w') \<Rightarrow>
                  Inr (s\<lparr>aggregated_context :=
                           aggregated_context s @ supplemental_segment F new_evidence,
                         calls := calls s
                           @ [SupplementalCall (current_attempt s) fq new_evidence]\<rparr>, w'))
          else Inr (s, w))"

text \<open>The \<^verbatim>\<open>else\<close> branch of the loop body: the attempt was rejected.\<close>

definition on_reject ::
  "'w agents \<Rightarrow> frontend \<Rightarrow> ReviewerOutput \<Rightarrow> session \<Rightarrow> 'w \<Rightarrow> exc + session \<times> 'w" where
  "on_reject A F review s w =
     and_then (console_print F (CritiqueLine (critique review))) (\<lambda>_.
     and_then
       (supplemental_search A F (feedback_for_retriever review) (s\<lparr>feedback := critique review\<rparr>) w)
       (\<lambda>(s', w'). Inr (s'\<lparr>current_attempt := current_attempt s' + 1\<rparr>, w')))"

datatype flow = Break | Continue

text \<open>One pass through the body of the \<^verbatim>\<open>while\<close> loop.\<close>

definition attempt ::
  "'w agents \<Rightarrow> frontend \<Rightarrow> string \<Rightarrow> session \<Rightarrow> 'w \<Rightarrow> exc + flow \<times> session \<times> 'w" where
  "attempt A F user_query s w =
     (let eq = effective_query F user_query (feedback s);
          s0 = s\<lparr>calls := calls s @ [ReasonCall (current_attempt s) eq (aggregated_context s)]\<rparr>
      in case reasoner_run A eq (aggregated_context s) w of
           (Inl e, w1) \<Rightarrow> Inl e
         | (Inr draft, w1) \<Rightarrow>
             and_then (console_print F (DraftPanel (draft_answer draft))) (\<lambda>_.
               case reviewer_review A user_query draft w1 of
                 (Inl e, w2) \<Rightarrow> Inl e
               | (Inr review, w2) \<Rightarrow>
                   and_then (console_print F (DecisionLine (decision review))) (\<lambda>_.
                     let s2 = s0\<lparr>draft_output := Some draft,
                                  calls := calls s0 @ [ReviewCall (current_attempt s) review]\<rparr>
                     in if decision review = ACCEPT
                        then Inr (Break, s2\<lparr>final_answer := Some draft\<rparr>, w2)
                        else and_then (on_reject A F review s2 w2)
                               (\<lambda>(s3, w3). Inr (Continue, s3, w3)))))"

text \<open>\<^verbatim>\<open>while current_attempt <= max_retries\<close>.\<close>

function while_loop ::
  "'w agents \<Rightarrow> frontend \<Rightarrow> nat \<Rightarrow> string \<Rightarrow> session \<Rightarrow> 'w \<Rightarrow> exc + session \<times> 'w" where
  "while_loop A F mr user_query s w =
     (if current_attempt s \<le> mr then
        (case attempt A F user_query s w of
           Inl e \<Rightarrow> Inl e
         | Inr (Break, s', w') \<Rightarrow> Inr (s', w')
         | Inr (Continue, s', w') \<Rightarrow> while_loop A F mr user_query s' w')
      else Inr (s, w))"
  by pat_completeness auto
termination
  by (relation "measure (\<lambda>(A, F, mr, user_query, s, w). Suc mr - current_attempt s)")
     (auto simp: attempt_def on_reject_def supplemental_search_def and_then_def Let_def
           split: sum.splits prod.splits if_splits option.splits)

declare while_loop.simps [simp del]

text \<open>The three lines printed after the planner has returned.\<close>

definition print_plan :: "frontend \<Rightarrow> PlannerOutput \<Rightarrow> exc + unit" where
  "print_plan F p =
     print_all F [ReasoningLine (reasoning p), QueriesLine (search_queries p),
                  VisualsLine (need_visual_understanding p)]"

text \<open>
  The final output: the accepted answer with its citations, or else the last draft
  (an instance of a model is true in a condition, a list when it is not empty).
\<close>

definition final_output :: "frontend \<Rightarrow> session \<Rightarrow> exc + unit" where
  "final_output F s =
     (case final_answer s of
        Some a \<Rightarrow> print_all F (FinalMarkdown (draft_answer a) # map SourceLine (citations a))
      | None \<Rightarrow>
          (case draft_output s of
             Some d \<Rightarrow> console_print F (LastDraftMarkdown (draft_answer d))
           | None \<Rightarrow> Inr ()))"

text \<open>Planner, retrieval round, loop and final output, as both pipelines run them.\<close>

definition pipeline :: "'w agents \<Rightarrow> frontend \<Rightarrow> string \<Rightarrow> 'w \<Rightarrow> exc + session \<times> 'w" where
  "pipeline A F user_query w =
     and_then (console_print F (QueryPanel user_query)) (\<lambda>_.
       case planner_plan A user_query w of
         (Inl e, w1) \<Rightarrow>
           (case F of
              CLI K \<Rightarrow> Inl e
            | GUI \<Rightarrow> Inr (init_session\<lparr>calls := [PlanCall user_query]\<rparr>, w1))
       | (Inr p, w1) \<Rightarrow>
           and_then (print_plan F p) (\<lambda>_.
           and_then
             (search_loop A F (search_queries p)
                (init_session\<lparr>plan := Some p, calls := [PlanCall user_query]\<rparr>) w1)
             (\<lambda>(s, w2).
           and_then (while_loop A F max_retries user_query s w2) (\<lambda>(s', w3).
           and_then (final_output F s') (\<lambda>_. Inr (s', w3))))))"

text \<open>main.py, with the console it prints to.\<close>

definition run_chat_pipeline ::
  "console \<Rightarrow> 'w agents \<Rightarrow> string \<Rightarrow> 'w \<Rightarrow> exc + session \<times> 'w" where
  "run_chat_pipeline K A user_query w = pipeline A (CLI K) user_query w"

text \<open>
  app.py: returns at once on an empty message, and catches an exception of the
  planner (the \<open>GUI\<close> case of \<open>pipeline\<close>).
\<close>

definition chat_pipeline :: "'w agents \<Rightarrow> string \<Rightarrow> 'w \<Rightarrow> exc + session \<times> 'w" where
  "chat_pipeline A user_message w =
     (if user_message = [] then Inr (init_session, w)
      else pipeline A GUI user_message w)"

text \<open>What a finished run shows: the accepted answer, or else the last draft.\<close>

definition accepted :: "session \<Rightarrow> bool" where
  "accepted s = (final_answer s \<noteq> None)"

definition final_draft :: "session \<Rightarrow> ReasonerOutput option" where
  "final_draft s = (case final_answer s of Some a \<Rightarrow> Some a | None \<Rightarrow> draft_output s)"

definition final_calls :: "exc + session \<times> 'w \<Rightarrow> call list" where
  "final_calls r = (case r of Inl e \<Rightarrow> [] | Inr (s, w) \<Rightarrow> calls s)"

text \<open>
  For the comparison of two runs that differ only in the scores of the verdicts:
  \<open>rescore g A\<close> is the agents \<open>A\<close> whose reviewer returns the same verdicts with the
  score \<open>g\<close> chooses (from the reviewer's arguments and the outside world) in place of
  its own; \<open>without_scores\<close> forgets the scores in the log of a run; \<open>run_outcome\<close> is the
  number of attempts made, the accepted status and the final draft.
\<close>

definition rescore :: "(string \<Rightarrow> ReasonerOutput \<Rightarrow> 'w \<Rightarrow> real) \<Rightarrow> 'w agents \<Rightarrow> 'w agents" where
  "rescore g A =
     A\<lparr>reviewer_review := (\<lambda>query reasoner_output w.
          case reviewer_review A query reasoner_output w of
            (Inl e, w') \<Rightarrow> (Inl e, w')
          | (Inr v, w') \<Rightarrow> (Inr (v\<lparr>confidence_score := g query reasoner_output w\<rparr>), w'))\<rparr>"

fun erase_score :: "call \<Rightarrow> call" where
  "erase_score (ReviewCall i v) = ReviewCall i (v\<lparr>confidence_score := 0\<rparr>)"
| "erase_score c = c"

definition erase_scores :: "session \<Rightarrow> session" where
  "erase_scores s = s\<lparr>calls := map erase_score (calls s)\<rparr>"

definition without_scores :: "exc + session \<times> 'w \<Rightarrow> exc + session \<times> 'w" where
  "without_scores r =
     (case r of Inl e \<Rightarrow> Inl e | Inr (s, w) \<Rightarrow> Inr (erase_scores s, w))"

definition run_outcome :: "exc + session \<times> 'w \<Rightarrow> (nat \<times> bool \<times> ReasonerOutput option) option" where
  "run_outcome r =
     (case r of
        Inl e \<Rightarrow> None
      | Inr (s, w) \<Rightarrow> Some (length (filter is_ReasonCall (calls s)), accepted s, final_draft s))"

text \<open>The same for one pass through the loop body.\<close>

definition erase_step :: "exc + flow \<times> session \<times> 'w \<Rightarrow> exc + flow \<times> session \<times> 'w" where
  "erase_step r =
     (case r of Inl e \<Rightarrow> Inl e | Inr (fl, s, w) \<Rightarrow> Inr (fl, erase_scores s, w))"

section \<open>Concrete inputs for the examples\<close>

text \<open>
  A library for the closed examples. Its \<open>ascii_strip\<close> removes the white space of ASCII, which
  is what \<^verbatim>\<open>str.strip\<close> does on a text of ASCII. Its decoder knows the five texts listed
  and refuses every other text the way \<^verbatim>\<open>json.loads\<close> refuses \<^verbatim>\<open>not json\<close>; its validators
  accept exactly the values of the declared type.
\<close>

definition ascii_space :: "char \<Rightarrow> bool" where
  "ascii_space c = (c \<in> {CHR '' '', CHR 0x09, CHR 0x0A, CHR 0x0B, CHR 0x0C, CHR 0x0D,
                        CHR 0x1C, CHR 0x1D, CHR 0x1E, CHR 0x1F})"

definition ascii_strip :: "string \<Rightarrow> string" where
  "ascii_strip s = rev (dropWhile ascii_space (rev (dropWhile ascii_space s)))"

definition example_texts :: "(string \<times> json) list" where
  \<open>example_texts =
     [(''{"reasoning": "r", "search_queries": [], "need_visual_understanding": false}'',
       JObj [(''reasoning'', JStr ''r''), (''search_queries'', JArr []),
             (''need_visual_understanding'', JBool False)]),
      (''{"confidence_score": 0.9, "decision": "MAYBE", "critique": "fine"}'',
       JObj [(''confidence_score'', JFloat (9 / 10)), (''decision'', JStr ''MAYBE''),
             (''critique'', JStr ''fine'')]),
      (''{"confidence_score": 0.1, "decision": "ACCEPT", "critique": "ok"}'',
       JObj [(''confidence_score'', JFloat (1 / 10)), (''decision'', JStr ''ACCEPT''),
             (''critique'', JStr ''ok'')]),
      (''{"decision": "REJECT", "critique": "[/x]"}'',
       JObj [(''decision'', JStr ''REJECT''), (''critique'', JStr ''[/x]'')]),
      (''[1]'', JArr [JInt 1])]\<close>

definition example_loads :: "string \<Rightarrow> exc + json" where
  "example_loads text =
     (case map_of example_texts text of
        Some v \<Rightarrow> Inr v
      | None \<Rightarrow> Inl (JSONDecodeError ''Expecting value: line 1 column 1 (char 0)''))"

fun example_float :: "json \<Rightarrow> exc + real" where
  "example_float (JFloat x) = Inr x"
| "example_float (JInt i) = Inr (of_int i)"
| "example_float (JBool b) = Inr (if b then 1 else 0)"
| "example_float v = Inl (Exception (''no float from '' @ py_type_name v))"

fun example_repr :: "json \<Rightarrow> string" where
  "example_repr (JStr s) = [CHR 0x27] @ s @ [CHR 0x27]"
| "example_repr v = py_type_name v"

fun example_str :: "json \<Rightarrow> string option" where
  "example_str (JStr s) = Some s"
| "example_str v = None"

fun example_str_list :: "json \<Rightarrow> string list option" where
  "example_str_list (JArr vs) =
     (if list_all (\<lambda>v. example_str v \<noteq> None) vs
      then Some (concat (map (\<lambda>v. case example_str v of Some s \<Rightarrow> [s] | None \<Rightarrow> []) vs))
      else None)"
| "example_str_list v = None"

fun example_bool :: "json \<Rightarrow> bool option" where
  "example_bool (JBool b) = Some b"
| "example_bool v = None"

fun example_opt_str :: "json \<Rightarrow> string option option" where
  "example_opt_str JNull = Some None"
| "example_opt_str (JStr s) = Some (Some s)"
| "example_opt_str v = None"

definition example_lib :: pylib where
  "example_lib =
     \<lparr>str_strip = ascii_strip, json_loads = example_loads, py_float = example_float, py_repr = example_repr,
      validate_str = example_str, validate_str_list = example_str_list,
      validate_bool = example_bool, validate_opt_str = example_opt_str,
      validation_error = (\<lambda>model args. ''validation error for '' @ model)\<rparr>"

text \<open>
  A console that refuses the text \<^verbatim>\<open>[/x]\<close>, a closing tag without its opening tag, in
  the panel of the query and in the line of the critique (where it stands after the 39
  characters of \<^verbatim>\<open>[bold orange3]Critique:[/bold orange3] \<close>), with the \<^verbatim>\<open>MarkupError\<close> of
  rich, and prints everything else.
\<close>

definition markup_error :: "string \<Rightarrow> exc" where
  "markup_error position =
     Exception (''closing tag '' @ [CHR 0x27] @ ''[/x]'' @ [CHR 0x27] @ '' at position ''
                @ position @ '' doesn'' @ [CHR 0x27] @ ''t match any open tag'')"

definition example_console :: console where
  "example_console p =
     (if p = QueryPanel ''[/x]'' then Some (markup_error ''0'')
      else if p = CritiqueLine (Some ''[/x]'') then Some (markup_error ''39'')
      else None)"

text \<open>Every capability is down: each call raises.\<close>

definition failing_caps :: "unit capabilities" where
  "failing_caps =
     \<lparr>planner_model = (\<lambda>q w. (Inl (Exception ''timeout''), w)),
      reasoner_model = (\<lambda>q c w. (Inl (Exception ''timeout''), w)),
      reviewer_model = (\<lambda>q a cs w. (Inl (Exception ''timeout''), w)),
      agent_run = (\<lambda>q w. (Inl (Exception ''timeout''), w))\<rparr>"

text \<open>
  The planner and the reasoner answer with plain text, the retriever finds evidence,
  and the reviewer accepts whatever it is shown.
\<close>

definition accepting_caps :: "unit capabilities" where
  \<open>accepting_caps =
     \<lparr>planner_model = (\<lambda>q w. (Inr (PlainReply ''not json''), w)),
      reasoner_model = (\<lambda>q c w. (Inr (PlainReply ''draft''), w)),
      reviewer_model = (\<lambda>q a cs w.
        (Inr (PlainReply ''{"confidence_score": 0.1, "decision": "ACCEPT", "critique": "ok"}''), w)),
      agent_run = (\<lambda>q w. (Inr ''evidence'', w))\<rparr>\<close>

text \<open>
  As before, but the reviewer rejects whatever it is shown, with the critique \<^verbatim>\<open>[/x]\<close>.
\<close>

definition rejecting_caps :: "unit capabilities" where
  \<open>rejecting_caps =
     \<lparr>planner_model = (\<lambda>q w. (Inr (PlainReply ''not json''), w)),
      reasoner_model = (\<lambda>q c w. (Inr (PlainReply ''draft''), w)),
      reviewer_model = (\<lambda>q a cs w.
        (Inr (PlainReply ''{"decision": "REJECT", "critique": "[/x]"}''), w)),
      agent_run = (\<lambda>q w. (Inr ''evidence'', w))\<rparr>\<close>

section \<open>Properties of the agents\<close>

lemma and_then_Inl [simp]: "and_then (Inl e) f = Inl e"
  by (simp add: and_then_def)

lemma and_then_Inr [simp]: "and_then (Inr v) f = f v"
  by (simp add: and_then_def)

lemma example_lib_fields [simp]:
  "str_strip example_lib = ascii_strip"
  "json_loads example_lib = example_loads"
  "py_float example_lib = example_float"
  "py_repr example_lib = example_repr"
  "validate_str example_lib = example_str"
  "validate_str_list example_lib = example_str_list"
  "validate_bool example_lib = example_bool"
  "validate_opt_str example_lib = example_opt_str"
  "validation_error example_lib model args = ''validation error for '' @ model"
  by (simp_all add: example_lib_def)

lemma clean_not_json: "clean_json_output example_lib ''not json'' = ''not json''"
  by (simp add: clean_json_output_def ascii_strip_def startswith_def endswith_def
        ascii_space_def)

lemma example_loads_not_json:
  "example_loads ''not json'' =
     Inl (JSONDecodeError ''Expecting value: line 1 column 1 (char 0)'')"
  by (simp add: example_loads_def example_texts_def)

lemma clean_maybe:
  \<open>clean_json_output example_lib ''{"confidence_score": 0.9, "decision": "MAYBE", "critique": "fine"}''
     = ''{"confidence_score": 0.9, "decision": "MAYBE", "critique": "fine"}''\<close>
  by (simp add: clean_json_output_def ascii_strip_def startswith_def endswith_def
        ascii_space_def)

lemma clean_empty_plan:
  \<open>clean_json_output example_lib
      ''{"reasoning": "r", "search_queries": [], "need_visual_understanding": false}''
     = ''{"reasoning": "r", "search_queries": [], "need_visual_understanding": false}''\<close>
  by (simp add: clean_json_output_def ascii_strip_def startswith_def endswith_def
        ascii_space_def)

text \<open>
  Claim C2. Whatever the model or the retrieval agent does (it raises, or it returns any
  response) and whatever the decoder and the validators make of the text, each of
  \<^verbatim>\<open>PlannerAgent.plan\<close>, \<^verbatim>\<open>ReasonerAgent.run\<close>, \<^verbatim>\<open>ReviewerAgent.review\<close> and
  \<^verbatim>\<open>RetrieverAgent.run\<close> returns a value of its output type, with every field of the
  schema, and no exception leaves the method.
\<close>

theorem stages_never_raise:
  "(\<exists>p. PlannerAgent_plan L user_query planner_outcome = Inr p)
   \<and> (\<exists>d. ReasonerAgent_run L reasoner_outcome = Inr d)
   \<and> (\<exists>v. ReviewerAgent_review L reviewer_outcome = Inr v)
   \<and> (\<exists>t. RetrieverAgent_run retriever_outcome = Inr t)"
  by (simp add: PlannerAgent_plan_def ReasonerAgent_run_def ReviewerAgent_review_def
        RetrieverAgent_run_def split: sum.split)

text \<open>
  Claim C7. When the text the planner's model returned cannot be decoded as JSON, the
  plan for the query \<open>X\<close> has \<open>search_queries = [X]\<close> and no need of visual
  understanding.
\<close>

theorem plan_parse_failure:
  assumes "response_content response = Some content"
    and "json_loads L (clean_json_output L content) = Inl e"
  shows "\<exists>p. PlannerAgent_plan L X (Inr response) = Inr p
           \<and> search_queries p = [X] \<and> need_visual_understanding p = False"
  using assms
  by (cases e) (simp_all add: PlannerAgent_plan_def content_and_cleaned_def plan_inner_def
        plan_decode_def)

theorem plan_parse_failure_witness:
  "PlannerAgent_plan example_lib ''X'' (Inr (PlainReply ''not json'')) =
     Inr \<lparr>reasoning = ''JSON parsing failed, using original query.'',
          search_queries = [''X''], need_visual_understanding = False\<rparr>"
  using plan_parse_failure [of "PlainReply ''not json''" "''not json''" example_lib _ "''X''"]
  by (simp add: response_content_def clean_not_json example_loads_not_json
        PlannerAgent_plan_def content_and_cleaned_def plan_inner_def plan_decode_def)

text \<open>
  A present \<open>search_queries\<close> is never replaced: with any library for which the empty
  list is a valid \<^verbatim>\<open>List[str]\<close>, a decoded object that holds the empty list gives a plan
  without search queries.
\<close>

lemma plan_keeps_empty_list:
  assumes "response_content response = Some content"
    and "json_loads L (clean_json_output L content) = Inr (JObj kvs)"
    and "map_of kvs ''search_queries'' = Some (JArr [])"
    and "validate_str_list L (JArr []) = Some []"
    and "validate_str L (case map_of kvs ''reasoning'' of
           Some v \<Rightarrow> v | None \<Rightarrow> JStr ''No reasoning provided.'') = Some r"
    and "validate_bool L (case map_of kvs ''need_visual_understanding'' of
           Some v \<Rightarrow> v | None \<Rightarrow> JBool False) = Some n"
  shows "PlannerAgent_plan L user_query (Inr response) =
           Inr \<lparr>reasoning = r, search_queries = [], need_visual_understanding = n\<rparr>"
  using assms
  by (simp add: PlannerAgent_plan_def content_and_cleaned_def plan_inner_def plan_decode_def
        dict_get_def PlannerOutput_init_def)

text \<open>
  Claim C4, at the input where the code departs from it. The model answers with
  well-formed JSON whose \<open>search_queries\<close> is the empty list: the key is present, so
  the default \<open>[user_query]\<close> of \<^verbatim>\<open>data.get\<close> is not used, the empty list is a valid
  \<^verbatim>\<open>List[str]\<close>, and the plan returned has no search query.
\<close>

theorem plan_empty_search_queries:
  \<open>PlannerAgent_plan example_lib ''Q''
      (Inr (PlainReply
        ''{"reasoning": "r", "search_queries": [], "need_visual_understanding": false}'')) =
     Inr \<lparr>reasoning = ''r'', search_queries = [], need_visual_understanding = False\<rparr>\<close>
  by (rule plan_keeps_empty_list
        [where kvs = "[(''reasoning'', JStr ''r''), (''search_queries'', JArr []),
                       (''need_visual_understanding'', JBool False)]"
           and content =
             \<open>''{"reasoning": "r", "search_queries": [], "need_visual_understanding": false}''\<close>])
     (simp_all add: response_content_def clean_empty_plan example_loads_def
        example_texts_def)

text \<open>
  The decode of the cleaned text raises in exactly these cases: \<^verbatim>\<open>json.loads\<close> refuses the
  text; the decoded value is not an object, so that it has no \<^verbatim>\<open>get\<close>; \<^verbatim>\<open>float\<close> refuses
  the score; the decision is not a value of \<^verbatim>\<open>AgentDecision\<close>; the model refuses the
  critique or the feedback for the retriever.
\<close>

lemma review_decode_raises:
  "review_decode L cleaned_json = Inl e \<longleftrightarrow>
     json_loads L cleaned_json = Inl e
     \<or> (\<exists>data. json_loads L cleaned_json = Inr data \<and> (\<forall>kvs. data \<noteq> JObj kvs)
           \<and> e = no_attribute (py_type_name data) ''get'')
     \<or> (\<exists>kvs. json_loads L cleaned_json = Inr (JObj kvs)
           \<and> (py_float L (case map_of kvs ''confidence_score'' of
                  Some v \<Rightarrow> v | None \<Rightarrow> JFloat 0) = Inl e
               \<or> (\<exists>x. py_float L (case map_of kvs ''confidence_score'' of
                         Some v \<Rightarrow> v | None \<Rightarrow> JFloat 0) = Inr x
                    \<and> (AgentDecision_call L (case map_of kvs ''decision'' of
                          Some v \<Rightarrow> v | None \<Rightarrow> JStr ''REJECT'') = Inl e
                       \<or> (\<exists>d. AgentDecision_call L (case map_of kvs ''decision'' of
                                 Some v \<Rightarrow> v | None \<Rightarrow> JStr ''REJECT'') = Inr d
                            \<and> ReviewerOutput_init L x d
                                 (case map_of kvs ''critique'' of
                                    Some v \<Rightarrow> v | None \<Rightarrow> JStr ''No critique provided.'')
                                 (case map_of kvs ''feedback_for_retriever'' of
                                    Some v \<Rightarrow> v | None \<Rightarrow> JNull) = Inl e)))))"
proof (cases "json_loads L cleaned_json")
  case (Inl e')
  then show ?thesis by (simp add: review_decode_def)
next
  case (Inr data)
  show ?thesis
  proof (cases data)
    case (JObj kvs)
    with Inr show ?thesis
      by (auto simp: review_decode_def dict_get_def and_then_def split: sum.splits)
  qed (use Inr in \<open>auto simp: review_decode_def dict_get_def\<close>)
qed

text \<open>A verdict other than the fallback is the one decoded from the text of the model.\<close>

lemma review_decoded:
  assumes "outcome = Inr response" and "response_content response = Some content"
    and "review_decode L (clean_json_output L content) = Inr v"
  shows "ReviewerAgent_review L outcome = Inr v"
  using assms by (simp add: ReviewerAgent_review_def content_and_cleaned_def)

text \<open>
  Claim C5, as the code has it. When anything in the \<^verbatim>\<open>try\<close> block of
  \<^verbatim>\<open>ReviewerAgent.review\<close> raises an exception \<open>e\<close> (the call of the model; \<^verbatim>\<open>strip\<close> on a
  content that is \<^verbatim>\<open>None\<close> or of another type than str; the decode of the cleaned text,
  which is every case of \<open>review_decode_raises\<close>: the text is not JSON, the JSON is not an
  object, the score or the decision is refused, the model refuses a field), the verdict
  is the fallback with score 0.0 and decision REJECT (never ACCEPT), whose critique is
  \<^verbatim>\<open>System error during review: \<close> followed by the text of the error, and whose feedback
  for the retriever is \<^verbatim>\<open>System error, please retry aggregation.\<close>
\<close>

theorem review_failure_fallback:
  assumes "outcome = Inl e
           \<or> (outcome = Inr response \<and> response_content response = None
              \<and> e = no_attribute (content_type response) ''strip'')
           \<or> (outcome = Inr response \<and> response_content response = Some content
              \<and> review_decode L (clean_json_output L content) = Inl e)"
  shows "ReviewerAgent_review L outcome =
           Inr \<lparr>confidence_score = 0, decision = REJECT,
                critique = Some (''System error during review: '' @ str_exc e),
                feedback_for_retriever = Some ''System error, please retry aggregation.''\<rparr>"
  using assms
  by (auto simp: ReviewerAgent_review_def content_and_cleaned_def)

lemma clean_list: "clean_json_output example_lib ''[1]'' = ''[1]''"
  by (simp add: clean_json_output_def ascii_strip_def startswith_def endswith_def
        ascii_space_def)

theorem review_failure_fallback_witness:
  "ReviewerAgent_review example_lib (Inl (Exception ''timeout'')) =
     Inr \<lparr>confidence_score = 0, decision = REJECT,
          critique = Some ''System error during review: timeout'',
          feedback_for_retriever = Some ''System error, please retry aggregation.''\<rparr>
   \<and> ReviewerAgent_review example_lib (Inr (NonTextMessage ''list'')) =
     Inr \<lparr>confidence_score = 0, decision = REJECT,
          critique = Some (''System error during review: ''
                           @ str_exc (no_attribute ''list'' ''strip'')),
          feedback_for_retriever = Some ''System error, please retry aggregation.''\<rparr>
   \<and> ReviewerAgent_review example_lib (Inr (PlainReply ''not json'')) =
     Inr \<lparr>confidence_score = 0, decision = REJECT,
          critique =
            Some ''System error during review: Expecting value: line 1 column 1 (char 0)'',
          feedback_for_retriever = Some ''System error, please retry aggregation.''\<rparr>
   \<and> ReviewerAgent_review example_lib (Inr (PlainReply ''[1]'')) =
     Inr \<lparr>confidence_score = 0, decision = REJECT,
          critique = Some (''System error during review: ''
                           @ str_exc (no_attribute ''list'' ''get'')),
          feedback_for_retriever = Some ''System error, please retry aggregation.''\<rparr>"
  using
    review_failure_fallback [of "Inl (Exception ''timeout'')" "Exception ''timeout''" _ _
      example_lib]
    review_failure_fallback [of "Inr (NonTextMessage ''list'')"
      "no_attribute ''list'' ''strip''" "NonTextMessage ''list''" _ example_lib]
    review_failure_fallback [of "Inr (PlainReply ''not json'')"
      "JSONDecodeError ''Expecting value: line 1 column 1 (char 0)''" "PlainReply ''not json''"
      "''not json''" example_lib]
    review_failure_fallback [of "Inr (PlainReply ''[1]'')" "no_attribute ''list'' ''get''"
      "PlainReply ''[1]''" "''[1]''" example_lib]
  by (simp add: response_content_def content_type_def clean_not_json clean_list
        example_loads_not_json review_decode_def dict_get_def example_loads_def example_texts_def)

text \<open>
  The verdict of a failed review is not the one Claim C5 words: neither the critique nor
  the feedback for the retriever is the text given there.
\<close>

theorem review_fallback_counterexample:
  "ReviewerAgent_review example_lib (Inl (Exception ''timeout'')) \<noteq>
     Inr \<lparr>confidence_score = 0, decision = REJECT, critique = Some ''timeout'',
          feedback_for_retriever = Some ''retry aggregation''\<rparr>"
  by (simp add: ReviewerAgent_review_def)

text \<open>
  Claim C10. When the reviewer's model returns a JSON object whose \<open>decision\<close> is
  neither \<^verbatim>\<open>"ACCEPT"\<close> nor \<^verbatim>\<open>"REJECT"\<close>, or whose \<open>confidence_score\<close> \<^verbatim>\<open>float\<close> refuses,
  nothing of the object is kept: the verdict is the fallback of the handler, with score
  0.0, decision REJECT and the handler's own critique and feedback.
\<close>

theorem invalid_review_discarded:
  assumes "response_content response = Some content"
    and "json_loads L (clean_json_output L content) = Inr (JObj kvs)"
    and "(\<exists>d. map_of kvs ''decision'' = Some d \<and> d \<noteq> JStr ''ACCEPT'' \<and> d \<noteq> JStr ''REJECT'')
         \<or> (\<exists>e. py_float L (case map_of kvs ''confidence_score'' of
                                Some v \<Rightarrow> v | None \<Rightarrow> JFloat 0) = Inl e)"
  shows "\<exists>e. ReviewerAgent_review L (Inr response) =
           Inr \<lparr>confidence_score = 0, decision = REJECT,
                critique = Some (''System error during review: '' @ str_exc e),
                feedback_for_retriever = Some ''System error, please retry aggregation.''\<rparr>"
proof -
  have "\<exists>e. review_decode L (clean_json_output L content) = Inl e"
    using assms(2,3)
    by (auto simp: review_decode_def dict_get_def AgentDecision_call_def and_then_def
          split: sum.splits)
  then obtain e where "review_decode L (clean_json_output L content) = Inl e" ..
  with assms(1) show ?thesis
    by (intro exI [of _ e]) (simp add: ReviewerAgent_review_def content_and_cleaned_def)
qed

theorem invalid_review_discarded_witness:
  \<open>ReviewerAgent_review example_lib
      (Inr (PlainReply ''{"confidence_score": 0.9, "decision": "MAYBE", "critique": "fine"}'')) =
     Inr \<lparr>confidence_score = 0, decision = REJECT,
          critique = Some (''System error during review: '' @ [CHR 0x27] @ ''MAYBE''
                           @ [CHR 0x27] @ '' is not a valid AgentDecision''),
          feedback_for_retriever = Some ''System error, please retry aggregation.''\<rparr>\<close>
  using invalid_review_discarded [of
      \<open>PlainReply ''{"confidence_score": 0.9, "decision": "MAYBE", "critique": "fine"}''\<close>
      \<open>''{"confidence_score": 0.9, "decision": "MAYBE", "critique": "fine"}''\<close>
      example_lib
      "[(''confidence_score'', JFloat (9 / 10)), (''decision'', JStr ''MAYBE''),
        (''critique'', JStr ''fine'')]"]
  by (simp add: response_content_def clean_maybe example_loads_def
        example_texts_def ReviewerAgent_review_def content_and_cleaned_def review_decode_def
        dict_get_def AgentDecision_call_def)

section \<open>Properties of the pipelines\<close>

lemma print_all_GUI [simp]: "print_all GUI ps = Inr ()"
  by (induction ps) simp_all

lemma print_all_quiet:
  assumes "\<And>p. console_print F p = Inr ()"
  shows "print_all F ps = Inr ()"
  by (induction ps) (simp_all add: assms)

lemma final_output_quiet:
  assumes "\<And>p. console_print F p = Inr ()"
  shows "final_output F s = Inr ()"
  by (simp add: final_output_def assms print_all_quiet [OF assms] split: option.split)

lemma search_loop_result:
  "search_loop A F qs s w = Inr (s', w') \<Longrightarrow>
     calls s' = calls s @ map SearchCall qs \<and> current_attempt s' = current_attempt s
     \<and> feedback s' = feedback s \<and> final_answer s' = final_answer s
     \<and> draft_output s' = draft_output s \<and> plan s' = plan s
     \<and> prefix (aggregated_context s) (aggregated_context s')"
proof (induction qs arbitrary: s w)
  case Nil
  then show ?case by simp
next
  case (Cons query rest)
  then show ?case
    by (fastforce simp: and_then_def split: prod.splits sum.splits dest: append_prefixD)
qed

lemma attemptE:
  assumes "attempt A F q s w = Inr (fl, s', w')"
  obtains draft v wa wb supp where
    "reasoner_run A (effective_query F q (feedback s)) (aggregated_context s) w = (Inr draft, wa)"
    "reviewer_review A q draft wa = (Inr v, wb)"
    "fl = (if decision v = ACCEPT then Break else Continue)"
    "calls s' = calls s
       @ [ReasonCall (current_attempt s) (effective_query F q (feedback s)) (aggregated_context s),
          ReviewCall (current_attempt s) v] @ supp"
    "(supp = [] \<and> aggregated_context s' = aggregated_context s
        \<and> (decision v = ACCEPT \<or> \<not> truthy (feedback_for_retriever v)))
     \<or> (\<exists>fq ev. supp = [SupplementalCall (current_attempt s) fq ev]
           \<and> aggregated_context s' = aggregated_context s @ supplemental_segment F ev
           \<and> decision v \<noteq> ACCEPT \<and> feedback_for_retriever v = Some fq \<and> fq \<noteq> [])"
    "current_attempt s' = (if decision v = ACCEPT then current_attempt s else Suc (current_attempt s))"
    "feedback s' = (if decision v = ACCEPT then feedback s else critique v)"
    "draft_output s' = Some draft"
    "final_answer s' = (if decision v = ACCEPT then Some draft else final_answer s)"
    "plan s' = plan s"
  using assms
  by (auto simp: attempt_def on_reject_def supplemental_search_def and_then_def Let_def
           split: sum.splits prod.splits if_splits option.splits)

lemma attempt_context_grows:
  assumes "attempt A F q s w = Inr (fl, s', w')"
  shows "prefix (aggregated_context s) (aggregated_context s')"
  using assms by (elim attemptE) auto

lemma while_loop_rule:
  assumes "while_loop A F mr q s w = Inr (s', w')" and "I s"
    and step: "\<And>s w s1 w1. I s \<Longrightarrow> current_attempt s \<le> mr \<Longrightarrow>
                 attempt A F q s w = Inr (Continue, s1, w1) \<Longrightarrow> I s1"
    and brk: "\<And>s w s1 w1. I s \<Longrightarrow> current_attempt s \<le> mr \<Longrightarrow>
                 attempt A F q s w = Inr (Break, s1, w1) \<Longrightarrow> R s1"
    and exit: "\<And>s. I s \<Longrightarrow> \<not> current_attempt s \<le> mr \<Longrightarrow> R s"
  shows "R s'"
  using assms
proof (induction A F mr q s w rule: while_loop.induct)
  case (1 A F mr q s w)
  note step = "1.prems"(3) and brk = "1.prems"(4) and exit = "1.prems"(5)
  show ?case
  proof (cases "current_attempt s \<le> mr")
    case False
    with "1.prems"(1,2) show ?thesis
      by (simp add: while_loop.simps [of A F mr q s w] exit)
  next
    case True
    from "1.prems"(1) True obtain fl s1 w1 where a: "attempt A F q s w = Inr (fl, s1, w1)"
      by (auto simp: while_loop.simps [of A F mr q s w] split: sum.splits)
    show ?thesis
    proof (cases fl)
      case Break
      with a "1.prems"(1,2) True show ?thesis
        by (auto simp: while_loop.simps [of A F mr q s w] intro: brk)
    next
      case Continue
      with a "1.prems"(1) True have l: "while_loop A F mr q s1 w1 = Inr (s', w')"
        by (simp add: while_loop.simps [of A F mr q s w])
      have i: "I s1" using step [OF "1.prems"(2) True] a Continue by simp
      show ?thesis
        using "1.IH" [OF True a [unfolded Continue] refl refl refl l i step brk exit] .
    qed
  qed
qed

lemma scimuse_planner_returns:
  "\<exists>p w'. planner_plan (scimuse_agents C L) q w = (Inr p, w')"
  by (cases "planner_model C q w")
     (simp add: scimuse_agents_def PlannerAgent_plan_def split: sum.split)

lemma scimuse_retriever_returns:
  "\<exists>t w'. retriever_run (scimuse_agents C L) q w = (Inr t, w')"
  by (cases "agent_run C q w")
     (simp add: scimuse_agents_def RetrieverAgent_run_def split: sum.split)

lemma scimuse_reasoner_returns:
  "\<exists>d w'. reasoner_run (scimuse_agents C L) q c w = (Inr d, w')"
  by (cases "reasoner_model C q (format_context c) w")
     (simp add: scimuse_agents_def ReasonerAgent_run_def split: sum.split)

lemma scimuse_reviewer_returns:
  "\<exists>v w'. reviewer_review (scimuse_agents C L) q d w = (Inr v, w')"
  by (cases "reviewer_model C q (draft_answer d) (citations d) w")
     (simp add: scimuse_agents_def ReviewerAgent_review_def split: sum.split)

lemma search_loop_returns:
  assumes "\<And>q w. \<exists>t w'. retriever_run A q w = (Inr t, w')"
    and "\<And>p. console_print F p = Inr ()"
  shows "\<exists>s' w'. search_loop A F qs s w = Inr (s', w')"
proof (induction qs arbitrary: s w)
  case Nil
  show ?case by simp
next
  case (Cons query rest)
  obtain t w1 where "retriever_run A query w = (Inr t, w1)"
    using assms(1) by blast
  then show ?case using Cons.IH by (simp add: assms(2))
qed

lemma attempt_returns:
  assumes "\<And>q c w. \<exists>d w'. reasoner_run A q c w = (Inr d, w')"
    and "\<And>q d w. \<exists>v w'. reviewer_review A q d w = (Inr v, w')"
    and "\<And>q w. \<exists>t w'. retriever_run A q w = (Inr t, w')"
    and "\<And>p. console_print F p = Inr ()"
  shows "\<exists>fl s' w'. attempt A F q s w = Inr (fl, s', w')"
proof -
  obtain d w1 where r: "reasoner_run A (effective_query F q (feedback s)) (aggregated_context s) w = (Inr d, w1)"
    using assms(1) by blast
  obtain v w2 where v: "reviewer_review A q d w1 = (Inr v, w2)"
    using assms(2) by blast
  show ?thesis
  proof (cases "feedback_for_retriever v")
    case None
    with r v show ?thesis
      by (simp add: attempt_def on_reject_def supplemental_search_def Let_def assms(4))
  next
    case (Some fq)
    obtain t w3 where "retriever_run A fq w2 = (Inr t, w3)"
      using assms(3) by blast
    with r v Some show ?thesis
      by (simp add: attempt_def on_reject_def supplemental_search_def Let_def assms(4))
  qed
qed

lemma while_loop_returns:
  assumes "\<And>s w. \<exists>fl s' w'. attempt A F q s w = Inr (fl, s', w')"
  shows "\<exists>s' w'. while_loop A F mr q s w = Inr (s', w')"
  using assms
proof (induction A F mr q s w rule: while_loop.induct)
  case (1 A F mr q s w)
  show ?case
  proof (cases "current_attempt s \<le> mr")
    case False
    then show ?thesis by (simp add: while_loop.simps [of A F mr q s w])
  next
    case True
    obtain fl s1 w1 where a: "attempt A F q s w = Inr (fl, s1, w1)"
      using "1.prems" by blast
    show ?thesis
    proof (cases fl)
      case Break
      with a True show ?thesis by (simp add: while_loop.simps [of A F mr q s w])
    next
      case Continue
      from "1.IH" [OF True a [unfolded Continue] refl refl refl "1.prems"]
      show ?thesis using a True Continue by (simp add: while_loop.simps [of A F mr q s w])
    qed
  qed
qed

lemma pipeline_returns:
  assumes quiet: "\<And>p. console_print F p = Inr ()"
  shows "\<exists>s w'. pipeline (scimuse_agents C L) F q w = Inr (s, w')"
proof -
  obtain p w1 where p: "planner_plan (scimuse_agents C L) q w = (Inr p, w1)"
    using scimuse_planner_returns [of C L q w] by auto
  have "\<exists>s0 w2. search_loop (scimuse_agents C L) F (search_queries p)
      (init_session\<lparr>plan := Some p, calls := [PlanCall q]\<rparr>) w1 = Inr (s0, w2)"
    by (rule search_loop_returns) (rule scimuse_retriever_returns quiet)+
  then obtain s0 w2 where s0: "search_loop (scimuse_agents C L) F (search_queries p)
      (init_session\<lparr>plan := Some p, calls := [PlanCall q]\<rparr>) w1 = Inr (s0, w2)"
    by auto
  have "\<exists>s w'. while_loop (scimuse_agents C L) F max_retries q s0 w2 = Inr (s, w')"
    by (rule while_loop_returns, rule attempt_returns)
       (rule scimuse_reasoner_returns scimuse_reviewer_returns scimuse_retriever_returns quiet)+
  then obtain s w' where "while_loop (scimuse_agents C L) F max_retries q s0 w2 = Inr (s, w')"
    by auto
  with p s0 show ?thesis
    by (simp add: pipeline_def print_plan_def quiet print_all_quiet [OF quiet]
          final_output_quiet [OF quiet])
qed

lemma while_loop_rounds:
  assumes "while_loop A F mr q s w = Inr (s', w')"
    and "length (filter is_ReasonCall (calls s)) \<le> current_attempt s"
    and "length (filter is_ReviewCall (calls s)) \<le> current_attempt s"
    and "current_attempt s \<le> mr + 1"
  shows "length (filter is_ReasonCall (calls s')) \<le> mr + 1
         \<and> length (filter is_ReviewCall (calls s')) \<le> mr + 1"
proof (rule while_loop_rule [OF assms(1), where
      I = "\<lambda>s. length (filter is_ReasonCall (calls s)) \<le> current_attempt s
               \<and> length (filter is_ReviewCall (calls s)) \<le> current_attempt s
               \<and> current_attempt s \<le> mr + 1"])
  show "length (filter is_ReasonCall (calls s)) \<le> current_attempt s
        \<and> length (filter is_ReviewCall (calls s)) \<le> current_attempt s
        \<and> current_attempt s \<le> mr + 1"
    using assms by simp
next
  fix s w s1 w1
  assume "length (filter is_ReasonCall (calls s)) \<le> current_attempt s
        \<and> length (filter is_ReviewCall (calls s)) \<le> current_attempt s
        \<and> current_attempt s \<le> mr + 1"
    and "current_attempt s \<le> mr" and "attempt A F q s w = Inr (Continue, s1, w1)"
  then show "length (filter is_ReasonCall (calls s1)) \<le> current_attempt s1
        \<and> length (filter is_ReviewCall (calls s1)) \<le> current_attempt s1
        \<and> current_attempt s1 \<le> mr + 1"
    by (elim attemptE) (auto split: if_splits)
next
  fix s w s1 w1
  assume "length (filter is_ReasonCall (calls s)) \<le> current_attempt s
        \<and> length (filter is_ReviewCall (calls s)) \<le> current_attempt s
        \<and> current_attempt s \<le> mr + 1"
    and "current_attempt s \<le> mr" and "attempt A F q s w = Inr (Break, s1, w1)"
  then show "length (filter is_ReasonCall (calls s1)) \<le> mr + 1
         \<and> length (filter is_ReviewCall (calls s1)) \<le> mr + 1"
    by (elim attemptE) (auto split: if_splits)
next
  fix s
  assume "length (filter is_ReasonCall (calls s)) \<le> current_attempt s
        \<and> length (filter is_ReviewCall (calls s)) \<le> current_attempt s
        \<and> current_attempt s \<le> mr + 1"
  then show "length (filter is_ReasonCall (calls s)) \<le> mr + 1
         \<and> length (filter is_ReviewCall (calls s)) \<le> mr + 1"
    by simp
qed

lemma pipeline_cases:
  assumes "pipeline A F q w = Inr (s, w')"
  obtains (no_plan) "calls s = [PlanCall q]" "plan s = None"
  | (planned) p w1 s0 w2 where
      "planner_plan A q w = (Inr p, w1)"
      "search_loop A F (search_queries p)
         (init_session\<lparr>plan := Some p, calls := [PlanCall q]\<rparr>) w1 = Inr (s0, w2)"
      "calls s0 = PlanCall q # map SearchCall (search_queries p)"
      "current_attempt s0 = 0" "plan s0 = Some p"
      "while_loop A F max_retries q s0 w2 = Inr (s, w')"
proof (cases "planner_plan A q w")
  case (Pair r w1)
  from assms have run: "(case planner_plan A q w of
         (Inl e, w1) \<Rightarrow>
           (case F of
              CLI K \<Rightarrow> Inl e
            | GUI \<Rightarrow> Inr (init_session\<lparr>calls := [PlanCall q]\<rparr>, w1))
       | (Inr p, w1) \<Rightarrow>
           and_then (print_plan F p) (\<lambda>_.
           and_then
             (search_loop A F (search_queries p)
                (init_session\<lparr>plan := Some p, calls := [PlanCall q]\<rparr>) w1)
             (\<lambda>(s, w2).
           and_then (while_loop A F max_retries q s w2) (\<lambda>(s', w3).
           and_then (final_output F s') (\<lambda>_. Inr (s', w3)))))) = Inr (s, w')"
    by (cases "console_print F (QueryPanel q)") (simp_all add: pipeline_def)
  show ?thesis
  proof (cases r)
    case (Inl e)
    with Pair run have "calls s = [PlanCall q]" "plan s = None"
      by (cases F; auto simp: init_session_def)+
    then show ?thesis by (rule no_plan)
  next
    case (Inr p)
    with Pair run obtain s0 w2 where
      s0: "search_loop A F (search_queries p)
             (init_session\<lparr>plan := Some p, calls := [PlanCall q]\<rparr>) w1 = Inr (s0, w2)"
      and l: "while_loop A F max_retries q s0 w2 = Inr (s, w')"
      by (auto simp: and_then_def split: sum.splits)
    from search_loop_result [OF s0]
    have "calls s0 = PlanCall q # map SearchCall (search_queries p)" "current_attempt s0 = 0"
      "plan s0 = Some p"
      by (simp_all add: init_session_def)
    with Pair Inr s0 l show ?thesis by (intro planned) auto
  qed
qed

lemma pipeline_rounds:
  assumes "pipeline A F q w = Inr (s, w')"
  shows "length (filter is_ReasonCall (calls s)) \<le> max_retries + 1
         \<and> length (filter is_ReviewCall (calls s)) \<le> max_retries + 1"
  using assms
proof (cases rule: pipeline_cases)
  case no_plan
  then show ?thesis by simp
next
  case (planned p w1 s0 w2)
  then have "filter is_ReasonCall (calls s0) = []" "filter is_ReviewCall (calls s0) = []"
    by (simp_all add: filter_empty_conv image_iff)
  with planned(4) show ?thesis
    using while_loop_rounds [OF planned(6)] by simp
qed

text \<open>
  Whatever the models and the retrieval agent do on each call, and so for every sequence
  of verdicts (one that always rejects among them): \<^verbatim>\<open>chat_pipeline\<close> of app.py returns
  without an exception, after at most \<open>max_retries + 1\<close> calls of the reasoner and at most
  \<open>max_retries + 1\<close> calls of the reviewer; so does \<^verbatim>\<open>run_chat_pipeline\<close> of main.py when
  the console prints what it is given; and every run of either that returns has made at
  most that many calls.
\<close>

lemma chat_pipeline_bounded:
  "\<exists>s w'. chat_pipeline (scimuse_agents C L) user_query w = Inr (s, w')
       \<and> length (filter is_ReasonCall (calls s)) \<le> max_retries + 1
       \<and> length (filter is_ReviewCall (calls s)) \<le> max_retries + 1"
proof -
  obtain s w' where r: "pipeline (scimuse_agents C L) GUI user_query w = Inr (s, w')"
    using pipeline_returns [of GUI C L user_query w] by auto
  with pipeline_rounds [OF r] show ?thesis
    by (simp add: chat_pipeline_def init_session_def)
qed

lemma run_chat_pipeline_bounded:
  assumes "\<And>p. K p = None"
  shows "\<exists>s w'. run_chat_pipeline K (scimuse_agents C L) user_query w = Inr (s, w')
       \<and> length (filter is_ReasonCall (calls s)) \<le> max_retries + 1
       \<and> length (filter is_ReviewCall (calls s)) \<le> max_retries + 1"
proof -
  obtain s w' where r: "pipeline (scimuse_agents C L) (CLI K) user_query w = Inr (s, w')"
    using pipeline_returns [of "CLI K" C L user_query w] assms by auto
  with pipeline_rounds [OF r] show ?thesis
    by (simp add: run_chat_pipeline_def)
qed

lemma returned_run_bounded:
  assumes "run_chat_pipeline K A user_query w = Inr (s, w')
           \<or> chat_pipeline A user_query w = Inr (s, w')"
  shows "length (filter is_ReasonCall (calls s)) \<le> max_retries + 1
         \<and> length (filter is_ReviewCall (calls s)) \<le> max_retries + 1"
  using assms pipeline_rounds [of A "CLI K" user_query w s w']
    pipeline_rounds [of A GUI user_query w s w']
  by (auto simp: run_chat_pipeline_def chat_pipeline_def init_session_def split: if_splits)

lemma clean_texts:
  "clean_json_output example_lib ''draft'' = ''draft''"
  \<open>clean_json_output example_lib ''{"decision": "REJECT", "critique": "[/x]"}''
     = ''{"decision": "REJECT", "critique": "[/x]"}''\<close>
  \<open>clean_json_output example_lib
      ''{"confidence_score": 0.1, "decision": "ACCEPT", "critique": "ok"}''
     = ''{"confidence_score": 0.1, "decision": "ACCEPT", "critique": "ok"}''\<close>
  by (simp_all add: clean_json_output_def ascii_strip_def startswith_def endswith_def
        ascii_space_def)

lemma accepting_agents [simp]:
  "planner_plan (scimuse_agents accepting_caps example_lib) q w =
     (Inr \<lparr>reasoning = ''JSON parsing failed, using original query.'', search_queries = [q],
           need_visual_understanding = False\<rparr>, w)"
  "retriever_run (scimuse_agents accepting_caps example_lib) q w = (Inr ''evidence'', w)"
  "reasoner_run (scimuse_agents accepting_caps example_lib) q c w =
     (Inr \<lparr>draft_answer = ''draft'', citations = [], reasoning_trace = ''JSON Parse Error''\<rparr>, w)"
  "reviewer_review (scimuse_agents accepting_caps example_lib) q d w =
     (Inr \<lparr>confidence_score = 1 / 10, decision = ACCEPT, critique = Some ''ok'',
           feedback_for_retriever = None\<rparr>, w)"
  by (simp_all add: scimuse_agents_def accepting_caps_def PlannerAgent_plan_def
        RetrieverAgent_run_def ReasonerAgent_run_def ReviewerAgent_review_def
        content_and_cleaned_def response_content_def clean_not_json clean_texts
        plan_inner_def plan_decode_def reason_inner_def reason_decode_def review_decode_def
        example_loads_def example_texts_def dict_get_def AgentDecision_call_def
        ReviewerOutput_init_def)

lemma rejecting_agents [simp]:
  "planner_plan (scimuse_agents rejecting_caps example_lib) q w =
     (Inr \<lparr>reasoning = ''JSON parsing failed, using original query.'', search_queries = [q],
           need_visual_understanding = False\<rparr>, w)"
  "retriever_run (scimuse_agents rejecting_caps example_lib) q w = (Inr ''evidence'', w)"
  "reasoner_run (scimuse_agents rejecting_caps example_lib) q c w =
     (Inr \<lparr>draft_answer = ''draft'', citations = [], reasoning_trace = ''JSON Parse Error''\<rparr>, w)"
  "reviewer_review (scimuse_agents rejecting_caps example_lib) q d w =
     (Inr \<lparr>confidence_score = 0, decision = REJECT, critique = Some ''[/x]'',
           feedback_for_retriever = None\<rparr>, w)"
  by (simp_all add: scimuse_agents_def rejecting_caps_def PlannerAgent_plan_def
        RetrieverAgent_run_def ReasonerAgent_run_def ReviewerAgent_review_def
        content_and_cleaned_def response_content_def clean_not_json clean_texts
        plan_inner_def plan_decode_def reason_inner_def reason_decode_def review_decode_def
        example_loads_def example_texts_def dict_get_def AgentDecision_call_def
        ReviewerOutput_init_def)

text \<open>
  Claim C1, at the inputs where main.py departs from it. In the first run the reviewer
  rejects the first draft with the critique \<^verbatim>\<open>[/x]\<close>: line 129, in the loop, prints the
  critique as console markup, the console raises, and the loop is left by this exception
  in its first round. In the second run the query is \<^verbatim>\<open>[/x]\<close>: line 69 prints it in a
  panel before any agent is called, and the console raises although the reviewer would
  accept the first draft. Neither statement is inside a \<^verbatim>\<open>try\<close>, so \<^verbatim>\<open>run_chat_pipeline\<close>
  ends with the exception and not with a result.
\<close>

theorem markup_aborts_run:
  "run_chat_pipeline example_console (scimuse_agents rejecting_caps example_lib) ''Q'' () =
     Inl (markup_error ''39'')
   \<and> run_chat_pipeline example_console (scimuse_agents accepting_caps example_lib) ''[/x]'' () =
     Inl (markup_error ''0'')"
  by (simp add: run_chat_pipeline_def pipeline_def print_plan_def example_console_def
        init_session_def max_retries_def while_loop.simps attempt_def on_reject_def
        effective_query_def Let_def)

lemma while_loop_contexts:
  assumes "while_loop A F mr q s w = Inr (s', w')"
    and "\<forall>i u c. ReasonCall i u c \<in> set (calls s) \<longrightarrow>
           i < current_attempt s \<and> prefix c (aggregated_context s)"
    and "\<forall>i j u u' c c'. ReasonCall i u c \<in> set (calls s) \<and> ReasonCall j u' c' \<in> set (calls s)
           \<and> i \<le> j \<longrightarrow> prefix c c'"
  shows "\<forall>i j u u' c c'. ReasonCall i u c \<in> set (calls s') \<and> ReasonCall j u' c' \<in> set (calls s')
           \<and> i \<le> j \<longrightarrow> prefix c c'"
proof (rule while_loop_rule [OF assms(1), where
      I = "\<lambda>s. (\<forall>i u c. ReasonCall i u c \<in> set (calls s) \<longrightarrow>
                    i < current_attempt s \<and> prefix c (aggregated_context s))
               \<and> (\<forall>i j u u' c c'. ReasonCall i u c \<in> set (calls s)
                    \<and> ReasonCall j u' c' \<in> set (calls s) \<and> i \<le> j \<longrightarrow> prefix c c')"])
  show "(\<forall>i u c. ReasonCall i u c \<in> set (calls s) \<longrightarrow>
                    i < current_attempt s \<and> prefix c (aggregated_context s))
               \<and> (\<forall>i j u u' c c'. ReasonCall i u c \<in> set (calls s)
                    \<and> ReasonCall j u' c' \<in> set (calls s) \<and> i \<le> j \<longrightarrow> prefix c c')"
    using assms(2,3) by blast
next
  fix s :: session and w :: 'a and s1 w1
  assume I: "(\<forall>i u c. ReasonCall i u c \<in> set (calls s) \<longrightarrow>
                    i < current_attempt s \<and> prefix c (aggregated_context s))
               \<and> (\<forall>i j u u' c c'. ReasonCall i u c \<in> set (calls s)
                    \<and> ReasonCall j u' c' \<in> set (calls s) \<and> i \<le> j \<longrightarrow> prefix c c')"
    and a: "attempt A F q s w = Inr (Continue, s1, w1)"
  from a obtain v supp where
    c: "calls s1 = calls s @ [ReasonCall (current_attempt s) (effective_query F q (feedback s))
          (aggregated_context s), ReviewCall (current_attempt s) v] @ supp"
    and supp: "\<forall>i u c. ReasonCall i u c \<notin> set supp"
    and n: "current_attempt s1 = Suc (current_attempt s)"
    by (elim attemptE) (auto split: if_splits)
  have g: "prefix (aggregated_context s) (aggregated_context s1)"
    by (rule attempt_context_grows [OF a])
  have mem: "ReasonCall i u c \<in> set (calls s1) \<longleftrightarrow> ReasonCall i u c \<in> set (calls s)
      \<or> (i = current_attempt s \<and> u = effective_query F q (feedback s) \<and> c = aggregated_context s)"
    for i u c
    using c supp by auto
  show "(\<forall>i u c. ReasonCall i u c \<in> set (calls s1) \<longrightarrow>
                    i < current_attempt s1 \<and> prefix c (aggregated_context s1))
               \<and> (\<forall>i j u u' c c'. ReasonCall i u c \<in> set (calls s1)
                    \<and> ReasonCall j u' c' \<in> set (calls s1) \<and> i \<le> j \<longrightarrow> prefix c c')"
    unfolding mem n using I g
    by (auto dest: prefix_order.trans less_SucI) (meson less_Suc_eq prefix_order.trans leD)+
next
  fix s :: session and w :: 'a and s1 w1
  assume I: "(\<forall>i u c. ReasonCall i u c \<in> set (calls s) \<longrightarrow>
                    i < current_attempt s \<and> prefix c (aggregated_context s))
               \<and> (\<forall>i j u u' c c'. ReasonCall i u c \<in> set (calls s)
                    \<and> ReasonCall j u' c' \<in> set (calls s) \<and> i \<le> j \<longrightarrow> prefix c c')"
    and a: "attempt A F q s w = Inr (Break, s1, w1)"
  from a obtain v supp where
    c: "calls s1 = calls s @ [ReasonCall (current_attempt s) (effective_query F q (feedback s))
          (aggregated_context s), ReviewCall (current_attempt s) v] @ supp"
    and supp: "\<forall>i u c. ReasonCall i u c \<notin> set supp"
    by (elim attemptE) (auto split: if_splits)
  have mem: "ReasonCall i u c \<in> set (calls s1) \<longleftrightarrow> ReasonCall i u c \<in> set (calls s)
      \<or> (i = current_attempt s \<and> u = effective_query F q (feedback s) \<and> c = aggregated_context s)"
    for i u c
    using c supp by auto
  show "\<forall>i j u u' c c'. ReasonCall i u c \<in> set (calls s1)
                    \<and> ReasonCall j u' c' \<in> set (calls s1) \<and> i \<le> j \<longrightarrow> prefix c c'"
    unfolding mem using I
    by (auto) (meson leD)+
next
  fix s :: session
  assume "(\<forall>i u c. ReasonCall i u c \<in> set (calls s) \<longrightarrow>
                    i < current_attempt s \<and> prefix c (aggregated_context s))
               \<and> (\<forall>i j u u' c c'. ReasonCall i u c \<in> set (calls s)
                    \<and> ReasonCall j u' c' \<in> set (calls s) \<and> i \<le> j \<longrightarrow> prefix c c')"
  then show "\<forall>i j u u' c c'. ReasonCall i u c \<in> set (calls s)
                    \<and> ReasonCall j u' c' \<in> set (calls s) \<and> i \<le> j \<longrightarrow> prefix c c'"
    by blast
qed

lemma failing_agents [simp]:
  "planner_plan (scimuse_agents failing_caps L) q w =
     (Inr \<lparr>reasoning = ''System error: timeout'', search_queries = [q],
           need_visual_understanding = False\<rparr>, w)"
  "retriever_run (scimuse_agents failing_caps L) q w = (Inr ''Retriever failed: timeout'', w)"
  "reasoner_run (scimuse_agents failing_caps L) q c w =
     (Inr \<lparr>draft_answer = ''An error occurred while generating the answer: timeout'',
           citations = [], reasoning_trace = ''System Error''\<rparr>, w)"
  "reviewer_review (scimuse_agents failing_caps L) q d w =
     (Inr \<lparr>confidence_score = 0, decision = REJECT,
           critique = Some ''System error during review: timeout'',
           feedback_for_retriever = Some ''System error, please retry aggregation.''\<rparr>, w)"
  by (simp_all add: scimuse_agents_def failing_caps_def PlannerAgent_plan_def
        RetrieverAgent_run_def ReasonerAgent_run_def ReviewerAgent_review_def)

lemma failing_run_calls:
  "final_calls (run_chat_pipeline example_console (scimuse_agents failing_caps example_lib) ''Q'' ()) =
    [PlanCall ''Q'', SearchCall ''Q'',
     ReasonCall 0 ''Q'' (search_segment ''Q'' ''Retriever failed: timeout''),
     ReviewCall 0 \<lparr>confidence_score = 0, decision = REJECT,
           critique = Some ''System error during review: timeout'',
           feedback_for_retriever = Some ''System error, please retry aggregation.''\<rparr>,
     SupplementalCall 0 ''System error, please retry aggregation.'' ''Retriever failed: timeout'',
     ReasonCall 1 (''Q'' @ feedback_note (CLI example_console) ''System error during review: timeout'')
       (search_segment ''Q'' ''Retriever failed: timeout''
        @ supplemental_segment (CLI example_console) ''Retriever failed: timeout''),
     ReviewCall 1 \<lparr>confidence_score = 0, decision = REJECT,
           critique = Some ''System error during review: timeout'',
           feedback_for_retriever = Some ''System error, please retry aggregation.''\<rparr>,
     SupplementalCall 1 ''System error, please retry aggregation.'' ''Retriever failed: timeout'',
     ReasonCall 2 (''Q'' @ feedback_note (CLI example_console) ''System error during review: timeout'')
       (search_segment ''Q'' ''Retriever failed: timeout''
        @ supplemental_segment (CLI example_console) ''Retriever failed: timeout''
        @ supplemental_segment (CLI example_console) ''Retriever failed: timeout''),
     ReviewCall 2 \<lparr>confidence_score = 0, decision = REJECT,
           critique = Some ''System error during review: timeout'',
           feedback_for_retriever = Some ''System error, please retry aggregation.''\<rparr>,
     SupplementalCall 2 ''System error, please retry aggregation.'' ''Retriever failed: timeout'']"
  by (simp add: final_calls_def run_chat_pipeline_def pipeline_def print_plan_def final_output_def
        example_console_def init_session_def max_retries_def
        while_loop.simps attempt_def on_reject_def supplemental_search_def effective_query_def
        Let_def del: feedback_note.simps supplemental_segment.simps)

text \<open>
  Claim C6. In a run of either pipeline the evidence only grows: the context the reasoner
  is given in attempt \<open>i\<close> is a prefix of the context it is given in attempt \<open>i + 1\<close>,
  so nothing is removed or reordered and the length never shrinks.
\<close>

theorem evidence_append_only:
  assumes "run_chat_pipeline K A user_query w = Inr (s, w')
           \<or> chat_pipeline A user_query w = Inr (s, w')"
    and "ReasonCall i q1 c1 \<in> set (calls s)"
    and "ReasonCall (Suc i) q2 c2 \<in> set (calls s)"
  shows "prefix c1 c2 \<and> length c1 \<le> length c2"
proof -
  from assms(1,2) obtain F where r: "pipeline A F user_query w = Inr (s, w')"
    by (auto simp: run_chat_pipeline_def chat_pipeline_def init_session_def split: if_splits)
  from r have "\<forall>i j u u' c c'. ReasonCall i u c \<in> set (calls s) \<and> ReasonCall j u' c' \<in> set (calls s)
           \<and> i \<le> j \<longrightarrow> prefix c c'"
  proof (cases rule: pipeline_cases)
    case no_plan
    then show ?thesis by simp
  next
    case (planned p w1 s0 w2)
    have "\<forall>i u c. ReasonCall i u c \<notin> set (calls s0)"
      using planned(3) by auto
    then show ?thesis
      using while_loop_contexts [OF planned(6)] by blast
  qed
  with assms(2,3) have "prefix c1 c2"
    by (meson le_SucI order_refl)
  then show ?thesis by (simp add: prefix_length_le)
qed

lemma failing_run_returns:
  "\<exists>s. run_chat_pipeline example_console (scimuse_agents failing_caps example_lib) ''Q'' ()
         = Inr (s, ())"
  by (simp add: run_chat_pipeline_def pipeline_def print_plan_def final_output_def
        example_console_def init_session_def max_retries_def
        while_loop.simps attempt_def on_reject_def supplemental_search_def effective_query_def
        Let_def del: feedback_note.simps supplemental_segment.simps)

theorem evidence_append_only_witness:
  "ReasonCall 0 ''Q'' (search_segment ''Q'' ''Retriever failed: timeout'')
     \<in> set (final_calls (run_chat_pipeline example_console (scimuse_agents failing_caps example_lib) ''Q'' ()))
   \<and> ReasonCall (Suc 0) (''Q'' @ feedback_note (CLI example_console) ''System error during review: timeout'')
       (search_segment ''Q'' ''Retriever failed: timeout''
        @ supplemental_segment (CLI example_console) ''Retriever failed: timeout'')
     \<in> set (final_calls (run_chat_pipeline example_console (scimuse_agents failing_caps example_lib) ''Q'' ()))
   \<and> prefix (search_segment ''Q'' ''Retriever failed: timeout'')
          (search_segment ''Q'' ''Retriever failed: timeout''
           @ supplemental_segment (CLI example_console) ''Retriever failed: timeout'')
   \<and> length (search_segment ''Q'' ''Retriever failed: timeout'')
       \<le> length (search_segment ''Q'' ''Retriever failed: timeout''
           @ supplemental_segment (CLI example_console) ''Retriever failed: timeout'')"
proof -
  obtain s where
    r: "run_chat_pipeline example_console (scimuse_agents failing_caps example_lib) ''Q'' () = Inr (s, ())"
    using failing_run_returns by auto
  have c: "calls s = final_calls (Inr (s, ()))"
    by (simp add: final_calls_def)
  note fr = failing_run_calls [unfolded r]
  have "prefix (search_segment ''Q'' ''Retriever failed: timeout'')
          (search_segment ''Q'' ''Retriever failed: timeout''
           @ supplemental_segment (CLI example_console) ''Retriever failed: timeout'')
   \<and> length (search_segment ''Q'' ''Retriever failed: timeout'')
       \<le> length (search_segment ''Q'' ''Retriever failed: timeout''
           @ supplemental_segment (CLI example_console) ''Retriever failed: timeout'')"
    by (rule evidence_append_only [of example_console "scimuse_agents failing_caps example_lib"
          "''Q''" "()" s "()" 0 "''Q''" _
          "''Q'' @ feedback_note (CLI example_console) ''System error during review: timeout''"])
       (simp_all add: r c fr)
  then show ?thesis
    by (simp add: failing_run_calls)
qed

lemma attempt_log:
  assumes "attempt A F q s w = Inr (fl, s1, w1)"
  obtains v supp where
    "calls s1 = calls s @ [ReasonCall (current_attempt s) (effective_query F q (feedback s))
            (aggregated_context s), ReviewCall (current_attempt s) v] @ supp"
    "(supp = [] \<and> aggregated_context s1 = aggregated_context s
            \<and> (decision v = ACCEPT \<or> \<not> truthy (feedback_for_retriever v)))
         \<or> (\<exists>fq ev. supp = [SupplementalCall (current_attempt s) fq ev]
               \<and> aggregated_context s1 = aggregated_context s @ supplemental_segment F ev
               \<and> decision v \<noteq> ACCEPT \<and> feedback_for_retriever v = Some fq \<and> fq \<noteq> [])"
    "current_attempt s1 = (if decision v = ACCEPT then current_attempt s
                                    else Suc (current_attempt s))"
    "fl = (if decision v = ACCEPT then Break else Continue)"
  using assms by (elim attemptE) (rule that, assumption+)

lemma attempt_log_mem:
  assumes "calls s1 = calls s @ [ReasonCall n u0 c0, ReviewCall n v] @ supp"
    and "supp = [] \<or> (\<exists>fq ev. supp = [SupplementalCall n fq ev])"
  shows "ReviewCall i v' \<in> set (calls s1) \<longleftrightarrow>
           ReviewCall i v' \<in> set (calls s) \<or> (i = n \<and> v' = v)"
    and "ReasonCall i u c \<in> set (calls s1) \<longleftrightarrow>
           ReasonCall i u c \<in> set (calls s) \<or> (i = n \<and> u = u0 \<and> c = c0)"
    and "SupplementalCall i fq ev \<in> set (calls s1) \<longleftrightarrow>
           SupplementalCall i fq ev \<in> set (calls s) \<or> SupplementalCall i fq ev \<in> set supp"
  using assms by auto

lemma attempt_supplemental_step:
  assumes a: "attempt A F q s w = Inr (fl, s1, w1)"
    and B1: "\<forall>i v. ReviewCall i v \<in> set (calls s) \<longrightarrow> i < current_attempt s"
    and B2: "\<forall>i fq ev. SupplementalCall i fq ev \<in> set (calls s) \<longrightarrow> i < current_attempt s"
    and B3: "\<forall>i u c. ReasonCall i u c \<in> set (calls s) \<longrightarrow> i < current_attempt s"
    and Q0: "\<forall>i v fq. ReviewCall i v \<in> set (calls s) \<longrightarrow> decision v = REJECT \<longrightarrow>
              ((\<exists>ev. SupplementalCall i fq ev \<in> set (calls s))
               \<longleftrightarrow> feedback_for_retriever v = Some fq \<and> fq \<noteq> [])"
    and P0: "\<forall>i fq ev u c. SupplementalCall i fq ev \<in> set (calls s) \<longrightarrow>
              ReasonCall i u c \<in> set (calls s) \<longrightarrow>
              prefix (c @ supplemental_segment F ev) (aggregated_context s)"
  shows "ReviewCall i v' \<in> set (calls s1) \<Longrightarrow> decision v' = REJECT \<Longrightarrow>
           (\<exists>ev. SupplementalCall i fq ev \<in> set (calls s1))
           \<longleftrightarrow> feedback_for_retriever v' = Some fq \<and> fq \<noteq> []"
    and "SupplementalCall i fq ev \<in> set (calls s1) \<Longrightarrow> ReasonCall i u c \<in> set (calls s1) \<Longrightarrow>
           prefix (c @ supplemental_segment F ev) (aggregated_context s1)"
    and "fl = Continue \<Longrightarrow> ReviewCall i v' \<in> set (calls s1) \<Longrightarrow> i < current_attempt s1"
    and "fl = Continue \<Longrightarrow> SupplementalCall i fq ev \<in> set (calls s1) \<Longrightarrow> i < current_attempt s1"
    and "fl = Continue \<Longrightarrow> ReasonCall i u c \<in> set (calls s1) \<Longrightarrow> i < current_attempt s1"
proof -
  note Brv = B1 [rule_format] and Bsp = B2 [rule_format] and Brs = B3 [rule_format]
    and Q = Q0 [rule_format] and P = P0 [rule_format]
  from a obtain v supp where
    c: "calls s1 = calls s @ [ReasonCall (current_attempt s) (effective_query F q (feedback s))
          (aggregated_context s), ReviewCall (current_attempt s) v] @ supp"
    and supp: "(supp = [] \<and> aggregated_context s1 = aggregated_context s
          \<and> (decision v = ACCEPT \<or> \<not> truthy (feedback_for_retriever v)))
       \<or> (\<exists>fq ev. supp = [SupplementalCall (current_attempt s) fq ev]
             \<and> aggregated_context s1 = aggregated_context s @ supplemental_segment F ev
             \<and> decision v \<noteq> ACCEPT \<and> feedback_for_retriever v = Some fq \<and> fq \<noteq> [])"
    and n: "current_attempt s1 = (if decision v = ACCEPT then current_attempt s
                                  else Suc (current_attempt s))"
    and fl: "fl = (if decision v = ACCEPT then Break else Continue)"
    by (rule attempt_log)
  from supp have supp': "supp = [] \<or> (\<exists>fq ev. supp = [SupplementalCall (current_attempt s) fq ev])"
    by blast
  note mem = attempt_log_mem [OF c supp']
  have g: "prefix (aggregated_context s) (aggregated_context s1)"
    by (rule attempt_context_grows [OF a])
  have in_supp: "j = current_attempt s \<and> feedback_for_retriever v = Some fq' \<and> fq' \<noteq> []
      \<and> decision v \<noteq> ACCEPT
      \<and> aggregated_context s1 = aggregated_context s @ supplemental_segment F ev'"
    if "SupplementalCall j fq' ev' \<in> set supp" for j fq' ev'
    using supp that by auto
  show "(\<exists>ev. SupplementalCall i fq ev \<in> set (calls s1))
           \<longleftrightarrow> feedback_for_retriever v' = Some fq \<and> fq \<noteq> []"
    if h: "ReviewCall i v' \<in> set (calls s1)" "decision v' = REJECT"
  proof (cases "ReviewCall i v' \<in> set (calls s)")
    case True
    then have "i < current_attempt s" by (rule Brv)
    then have "SupplementalCall i fq ev \<notin> set supp" for ev
      using in_supp by blast
    then have "(\<exists>ev. SupplementalCall i fq ev \<in> set (calls s1))
         \<longleftrightarrow> (\<exists>ev. SupplementalCall i fq ev \<in> set (calls s))"
      unfolding mem by blast
    with Q [OF True h(2)] show ?thesis by simp
  next
    case False
    with h(1) have e: "i = current_attempt s" "v' = v"
      unfolding mem by auto
    have "SupplementalCall i fq ev \<notin> set (calls s)" for ev
      using Bsp [of i fq ev] e(1) by auto
    then have "(\<exists>ev. SupplementalCall i fq ev \<in> set (calls s1))
         \<longleftrightarrow> (\<exists>ev. SupplementalCall i fq ev \<in> set supp)"
      unfolding mem by blast
    also have "\<dots> \<longleftrightarrow> feedback_for_retriever v = Some fq \<and> fq \<noteq> []"
    proof
      assume "\<exists>ev. SupplementalCall i fq ev \<in> set supp"
      then show "feedback_for_retriever v = Some fq \<and> fq \<noteq> []"
        using in_supp by blast
    next
      assume f: "feedback_for_retriever v = Some fq \<and> fq \<noteq> []"
      from h(2) e(2) have "decision v \<noteq> ACCEPT" by simp
      with f supp e(1) show "\<exists>ev. SupplementalCall i fq ev \<in> set supp"
        by auto
    qed
    finally show ?thesis using e(2) by simp
  qed
  show "prefix (c @ supplemental_segment F ev) (aggregated_context s1)"
    if h: "SupplementalCall i fq ev \<in> set (calls s1)" "ReasonCall i u c \<in> set (calls s1)"
  proof (cases "SupplementalCall i fq ev \<in> set (calls s)")
    case True
    then have "i < current_attempt s" by (rule Bsp)
    with h(2) have "ReasonCall i u c \<in> set (calls s)"
      unfolding mem by auto
    with True have "prefix (c @ supplemental_segment F ev) (aggregated_context s)"
      by (rule P)
    then show ?thesis using g by (rule prefix_order.trans)
  next
    case False
    with h(1) have "SupplementalCall i fq ev \<in> set supp"
      unfolding mem by blast
    from in_supp [OF this] have e: "i = current_attempt s"
      "aggregated_context s1 = aggregated_context s @ supplemental_segment F ev"
      by simp_all
    have "ReasonCall i u c \<notin> set (calls s)"
      using Brs [of i u c] e(1) by auto
    with h(2) have "c = aggregated_context s"
      unfolding mem by blast
    with e(2) show ?thesis by simp
  qed
  show "i < current_attempt s1" if "fl = Continue" "ReviewCall i v' \<in> set (calls s1)"
  proof -
    from that(1) fl n have "current_attempt s1 = Suc (current_attempt s)"
      by (simp split: if_splits)
    moreover from that(2) have "ReviewCall i v' \<in> set (calls s) \<or> i = current_attempt s"
      unfolding mem by blast
    ultimately show ?thesis using Brv [of i v'] by auto
  qed
  show "i < current_attempt s1" if "fl = Continue" "SupplementalCall i fq ev \<in> set (calls s1)"
  proof -
    from that(1) fl n have "current_attempt s1 = Suc (current_attempt s)"
      by (simp split: if_splits)
    moreover from that(2) have "SupplementalCall i fq ev \<in> set (calls s) \<or> i = current_attempt s"
      unfolding mem using in_supp by blast
    ultimately show ?thesis using Bsp [of i fq ev] by auto
  qed
  show "i < current_attempt s1" if "fl = Continue" "ReasonCall i u c \<in> set (calls s1)"
  proof -
    from that(1) fl n have "current_attempt s1 = Suc (current_attempt s)"
      by (simp split: if_splits)
    moreover from that(2) have "ReasonCall i u c \<in> set (calls s) \<or> i = current_attempt s"
      unfolding mem by blast
    ultimately show ?thesis using Brs [of i u c] by auto
  qed
qed

lemma while_loop_supplemental:
  assumes "while_loop A F mr q s w = Inr (s', w')"
    and "\<forall>i v. ReviewCall i v \<notin> set (calls s)"
    and "\<forall>i fq ev. SupplementalCall i fq ev \<notin> set (calls s)"
    and "\<forall>i u c. ReasonCall i u c \<notin> set (calls s)"
  shows "(\<forall>i v fq. ReviewCall i v \<in> set (calls s') \<longrightarrow> decision v = REJECT \<longrightarrow>
            ((\<exists>ev. SupplementalCall i fq ev \<in> set (calls s'))
             \<longleftrightarrow> feedback_for_retriever v = Some fq \<and> fq \<noteq> []))
         \<and> (\<forall>i fq ev u c. SupplementalCall i fq ev \<in> set (calls s') \<longrightarrow>
               ReasonCall i u c \<in> set (calls s') \<longrightarrow>
               prefix (c @ supplemental_segment F ev) (aggregated_context s'))"
proof -
  let ?B1 = "\<lambda>s. \<forall>i v. ReviewCall i v \<in> set (calls s) \<longrightarrow> i < current_attempt s"
  let ?B2 = "\<lambda>s. \<forall>i fq ev. SupplementalCall i fq ev \<in> set (calls s) \<longrightarrow> i < current_attempt s"
  let ?B3 = "\<lambda>s. \<forall>i u c. ReasonCall i u c \<in> set (calls s) \<longrightarrow> i < current_attempt s"
  let ?Q = "\<lambda>s. \<forall>i v fq. ReviewCall i v \<in> set (calls s) \<longrightarrow> decision v = REJECT \<longrightarrow>
            ((\<exists>ev. SupplementalCall i fq ev \<in> set (calls s))
             \<longleftrightarrow> feedback_for_retriever v = Some fq \<and> fq \<noteq> [])"
  let ?P = "\<lambda>s. \<forall>i fq ev u c. SupplementalCall i fq ev \<in> set (calls s) \<longrightarrow>
               ReasonCall i u c \<in> set (calls s) \<longrightarrow>
               prefix (c @ supplemental_segment F ev) (aggregated_context s)"
  have step: "?Q s1 \<and> ?P s1 \<and> (fl = Continue \<longrightarrow> ?B1 s1 \<and> ?B2 s1 \<and> ?B3 s1)"
    if I: "?B1 s \<and> ?B2 s \<and> ?B3 s \<and> ?Q s \<and> ?P s" and a: "attempt A F q s w = Inr (fl, s1, w1)"
    for s :: session and w :: 'a and fl s1 w1
  proof -
    from I have B1: "?B1 s" by (rule conjunct1)
    from I have B2: "?B2 s" by (rule conjunct1 [OF conjunct2])
    from I have B3: "?B3 s" by (rule conjunct1 [OF conjunct2 [OF conjunct2]])
    from I have Q: "?Q s" by (rule conjunct1 [OF conjunct2 [OF conjunct2 [OF conjunct2]]])
    from I have P: "?P s" by (rule conjunct2 [OF conjunct2 [OF conjunct2 [OF conjunct2]]])
    note st = attempt_supplemental_step [OF a B1 B2 B3 Q P]
    have "?Q s1" by (intro allI impI) (rule st(1); assumption)
    moreover have "?P s1" by (intro allI impI) (rule st(2); assumption)
    moreover have "?B1 s1" if "fl = Continue"
      by (intro allI impI) (rule st(3) [OF that]; assumption)
    moreover have "?B2 s1" if "fl = Continue"
      by (intro allI impI) (rule st(4) [OF that]; assumption)
    moreover have "?B3 s1" if "fl = Continue"
      by (intro allI impI) (rule st(5) [OF that]; assumption)
    ultimately show ?thesis by (intro conjI impI; assumption?)
  qed
  show ?thesis
  proof (rule while_loop_rule [OF assms(1), where
        I = "\<lambda>s. ?B1 s \<and> ?B2 s \<and> ?B3 s \<and> ?Q s \<and> ?P s" and R = "\<lambda>s. ?Q s \<and> ?P s"])
    show "?B1 s \<and> ?B2 s \<and> ?B3 s \<and> ?Q s \<and> ?P s"
      using assms(2-4) by simp
  next
    fix s :: session and w :: 'a and s1 w1
    assume "?B1 s \<and> ?B2 s \<and> ?B3 s \<and> ?Q s \<and> ?P s"
      and "attempt A F q s w = Inr (Continue, s1, w1)"
    note st = step [OF this]
    from st have q: "?Q s1" by (rule conjunct1)
    from st have p: "?P s1" by (rule conjunct1 [OF conjunct2])
    from st have "Continue = Continue \<longrightarrow> ?B1 s1 \<and> ?B2 s1 \<and> ?B3 s1"
      by (rule conjunct2 [OF conjunct2])
    then have b: "?B1 s1 \<and> ?B2 s1 \<and> ?B3 s1" by (rule mp) (rule refl)
    from b q p show "?B1 s1 \<and> ?B2 s1 \<and> ?B3 s1 \<and> ?Q s1 \<and> ?P s1"
      by (elim conjE) (intro conjI; assumption)
  next
    fix s :: session and w :: 'a and s1 w1
    assume "?B1 s \<and> ?B2 s \<and> ?B3 s \<and> ?Q s \<and> ?P s"
      and "attempt A F q s w = Inr (Break, s1, w1)"
    note st = step [OF this]
    from st have q: "?Q s1" by (rule conjunct1)
    from st have p: "?P s1" by (rule conjunct1 [OF conjunct2])
    from q p show "?Q s1 \<and> ?P s1" by (rule conjI)
  next
    fix s :: session
    assume "?B1 s \<and> ?B2 s \<and> ?B3 s \<and> ?Q s \<and> ?P s"
    then show "?Q s \<and> ?P s"
      by (rule conjunct2 [OF conjunct2 [OF conjunct2]])
  qed
qed

lemma chosen_pipeline:
  assumes "(run_chat_pipeline K A user_query w = Inr (s, w') \<and> F = CLI K)
           \<or> (chat_pipeline A user_query w = Inr (s, w') \<and> F = GUI)"
    and "calls s \<noteq> []"
  shows "pipeline A F user_query w = Inr (s, w')"
  using assms
  by (auto simp: run_chat_pipeline_def chat_pipeline_def init_session_def split: if_splits)

text \<open>
  Claim C3, as the code has it. For every rejected attempt of a run of either pipeline, a
  supplemental call of the retriever with query \<open>fq\<close> is made exactly when the verdict's
  feedback for the retriever is \<open>fq\<close> and \<open>fq\<close> is not empty, whatever the number of the
  attempt; the evidence it returns is appended to the context that attempt was given.
\<close>

theorem supplemental_iff_feedback:
  assumes "(run_chat_pipeline K A user_query w = Inr (s, w') \<and> F = CLI K)
           \<or> (chat_pipeline A user_query w = Inr (s, w') \<and> F = GUI)"
    and "ReviewCall i v \<in> set (calls s)"
    and "decision v = REJECT"
  shows "((\<exists>ev. SupplementalCall i fq ev \<in> set (calls s))
            \<longleftrightarrow> feedback_for_retriever v = Some fq \<and> fq \<noteq> [])
         \<and> (\<forall>ev u c. SupplementalCall i fq ev \<in> set (calls s) \<longrightarrow>
               ReasonCall i u c \<in> set (calls s) \<longrightarrow>
               prefix (c @ supplemental_segment F ev) (aggregated_context s))"
proof -
  from assms(2) have "calls s \<noteq> []" by auto
  with assms(1) have r: "pipeline A F user_query w = Inr (s, w')"
    by (rule chosen_pipeline)
  from r show ?thesis
  proof (cases rule: pipeline_cases)
    case no_plan
    with assms(2) show ?thesis by simp
  next
    case (planned p w1 s0 w2)
    have "\<forall>i v. ReviewCall i v \<notin> set (calls s0)"
      "\<forall>i fq ev. SupplementalCall i fq ev \<notin> set (calls s0)"
      "\<forall>i u c. ReasonCall i u c \<notin> set (calls s0)"
      using planned(3) by auto
    note l = while_loop_supplemental [OF planned(6) this]
    from l have "(\<exists>ev. SupplementalCall i fq ev \<in> set (calls s))
            \<longleftrightarrow> feedback_for_retriever v = Some fq \<and> fq \<noteq> []"
      using assms(2,3) by (elim conjE allE [where x = i] allE [where x = v] allE [where x = fq])
        (erule impE, assumption, erule impE, assumption, assumption)
    moreover from l have "\<forall>ev u c. SupplementalCall i fq ev \<in> set (calls s) \<longrightarrow>
               ReasonCall i u c \<in> set (calls s) \<longrightarrow>
               prefix (c @ supplemental_segment F ev) (aggregated_context s)"
      by (intro allI impI) (rule conjunct2 [OF l, rule_format])
    ultimately show ?thesis by (rule conjI)
  qed
qed

theorem supplemental_iff_feedback_witness:
  "ReviewCall 2 \<lparr>confidence_score = 0, decision = REJECT,
        critique = Some ''System error during review: timeout'',
        feedback_for_retriever = Some ''System error, please retry aggregation.''\<rparr>
     \<in> set (final_calls (run_chat_pipeline example_console (scimuse_agents failing_caps example_lib) ''Q'' ()))
   \<and> (\<exists>ev. SupplementalCall 2 ''System error, please retry aggregation.'' ev
     \<in> set (final_calls (run_chat_pipeline example_console (scimuse_agents failing_caps example_lib) ''Q'' ())))"
proof -
  obtain s where
    r: "run_chat_pipeline example_console (scimuse_agents failing_caps example_lib) ''Q'' () = Inr (s, ())"
    using failing_run_returns by auto
  have c: "calls s = final_calls (Inr (s, ()))"
    by (simp add: final_calls_def)
  note fr = failing_run_calls [unfolded r]
  have m: "ReviewCall 2 \<lparr>confidence_score = 0, decision = REJECT,
        critique = Some ''System error during review: timeout'',
        feedback_for_retriever = Some ''System error, please retry aggregation.''\<rparr>
     \<in> set (calls s)"
    by (simp add: c fr)
  have "\<exists>ev. SupplementalCall 2 ''System error, please retry aggregation.'' ev \<in> set (calls s)"
    using supplemental_iff_feedback [of example_console
        "scimuse_agents failing_caps example_lib" "''Q''" "()" s
        "()" "CLI example_console" 2 _ "''System error, please retry aggregation.''", OF _ m]
    by (simp add: r)
  with m show ?thesis by (simp add: r c)
qed

text \<open>
  With every capability down, the third attempt (number 2, the last one the budget
  allows) is rejected and a supplemental call of the retriever is still made for it.
\<close>

theorem supplemental_on_final_attempt_counterexample:
  "ReviewCall 2 \<lparr>confidence_score = 0, decision = REJECT,
        critique = Some ''System error during review: timeout'',
        feedback_for_retriever = Some ''System error, please retry aggregation.''\<rparr>
     \<in> set (final_calls (run_chat_pipeline example_console (scimuse_agents failing_caps example_lib) ''Q'' ()))
   \<and> SupplementalCall 2 ''System error, please retry aggregation.'' ''Retriever failed: timeout''
     \<in> set (final_calls (run_chat_pipeline example_console (scimuse_agents failing_caps example_lib) ''Q'' ()))
   \<and> \<not> 2 < max_retries"
  by (simp add: failing_run_calls max_retries_def)

lemma while_loop_later_reviews:
  assumes "while_loop A F mr q s w = Inr (s', w')"
  shows "\<forall>i v. ReviewCall i v \<in> set (calls s') \<longrightarrow>
           ReviewCall i v \<in> set (calls s) \<or> current_attempt s \<le> i"
proof (rule while_loop_rule [OF assms, where
      I = "\<lambda>t. current_attempt s \<le> current_attempt t
               \<and> (\<forall>i v. ReviewCall i v \<in> set (calls t) \<longrightarrow>
                     ReviewCall i v \<in> set (calls s) \<or> current_attempt s \<le> i)"])
  show "current_attempt s \<le> current_attempt s
        \<and> (\<forall>i v. ReviewCall i v \<in> set (calls s) \<longrightarrow>
              ReviewCall i v \<in> set (calls s) \<or> current_attempt s \<le> i)"
    by simp
next
  fix t :: session and w :: 'a and t1 w1
  assume I: "current_attempt s \<le> current_attempt t
        \<and> (\<forall>i v. ReviewCall i v \<in> set (calls t) \<longrightarrow>
              ReviewCall i v \<in> set (calls s) \<or> current_attempt s \<le> i)"
    and a: "attempt A F q t w = Inr (Continue, t1, w1)"
  from a obtain v supp where
    c: "calls t1 = calls t @ [ReasonCall (current_attempt t) (effective_query F q (feedback t))
          (aggregated_context t), ReviewCall (current_attempt t) v] @ supp"
    and supp: "(supp = [] \<and> aggregated_context t1 = aggregated_context t
          \<and> (decision v = ACCEPT \<or> \<not> truthy (feedback_for_retriever v)))
       \<or> (\<exists>fq ev. supp = [SupplementalCall (current_attempt t) fq ev]
             \<and> aggregated_context t1 = aggregated_context t @ supplemental_segment F ev
             \<and> decision v \<noteq> ACCEPT \<and> feedback_for_retriever v = Some fq \<and> fq \<noteq> [])"
    and n: "current_attempt t1 = (if decision v = ACCEPT then current_attempt t
                                  else Suc (current_attempt t))"
    and fl: "Continue = (if decision v = ACCEPT then Break else Continue)"
    by (rule attempt_log)
  from supp have "supp = [] \<or> (\<exists>fq ev. supp = [SupplementalCall (current_attempt t) fq ev])"
    by blast
  note mem = attempt_log_mem(1) [OF c this]
  from I n have "current_attempt s \<le> current_attempt t1"
    by (simp split: if_splits)
  moreover have "ReviewCall i v' \<in> set (calls s) \<or> current_attempt s \<le> i"
    if "ReviewCall i v' \<in> set (calls t1)" for i v'
    using that I unfolding mem by auto
  ultimately show "current_attempt s \<le> current_attempt t1
        \<and> (\<forall>i v. ReviewCall i v \<in> set (calls t1) \<longrightarrow>
              ReviewCall i v \<in> set (calls s) \<or> current_attempt s \<le> i)"
    by blast
next
  fix t :: session and w :: 'a and t1 w1
  assume I: "current_attempt s \<le> current_attempt t
        \<and> (\<forall>i v. ReviewCall i v \<in> set (calls t) \<longrightarrow>
              ReviewCall i v \<in> set (calls s) \<or> current_attempt s \<le> i)"
    and a: "attempt A F q t w = Inr (Break, t1, w1)"
  from a obtain v supp where
    c: "calls t1 = calls t @ [ReasonCall (current_attempt t) (effective_query F q (feedback t))
          (aggregated_context t), ReviewCall (current_attempt t) v] @ supp"
    and supp: "(supp = [] \<and> aggregated_context t1 = aggregated_context t
          \<and> (decision v = ACCEPT \<or> \<not> truthy (feedback_for_retriever v)))
       \<or> (\<exists>fq ev. supp = [SupplementalCall (current_attempt t) fq ev]
             \<and> aggregated_context t1 = aggregated_context t @ supplemental_segment F ev
             \<and> decision v \<noteq> ACCEPT \<and> feedback_for_retriever v = Some fq \<and> fq \<noteq> [])"
    and n: "current_attempt t1 = (if decision v = ACCEPT then current_attempt t
                                  else Suc (current_attempt t))"
    and fl: "Break = (if decision v = ACCEPT then Break else Continue)"
    by (rule attempt_log)
  from supp have "supp = [] \<or> (\<exists>fq ev. supp = [SupplementalCall (current_attempt t) fq ev])"
    by blast
  note mem = attempt_log_mem(1) [OF c this]
  have "ReviewCall i v' \<in> set (calls s) \<or> current_attempt s \<le> i"
    if "ReviewCall i v' \<in> set (calls t1)" for i v'
    using that I unfolding mem by auto
  then show "\<forall>i v. ReviewCall i v \<in> set (calls t1) \<longrightarrow>
              ReviewCall i v \<in> set (calls s) \<or> current_attempt s \<le> i"
    by blast
next
  fix t :: session
  assume "current_attempt s \<le> current_attempt t
        \<and> (\<forall>i v. ReviewCall i v \<in> set (calls t) \<longrightarrow>
              ReviewCall i v \<in> set (calls s) \<or> current_attempt s \<le> i)"
  then show "\<forall>i v. ReviewCall i v \<in> set (calls t) \<longrightarrow>
              ReviewCall i v \<in> set (calls s) \<or> current_attempt s \<le> i"
    by (rule conjunct2)
qed

lemma first_accept_loop:
  assumes l: "while_loop A F mr q s0 w = Inr (s, w')"
    and z: "current_attempt s0 = 0"
    and no: "\<forall>i v. ReviewCall i v \<notin> set (calls s0)"
    and m: "ReviewCall 0 v \<in> set (calls s)"
    and acc: "decision v = ACCEPT"
  shows "\<exists>u c. calls s = calls s0 @ [ReasonCall 0 u c, ReviewCall 0 v] \<and> plan s = plan s0"
proof -
  from l z obtain fl s1 w1 where a: "attempt A F q s0 w = Inr (fl, s1, w1)"
    by (auto simp: while_loop.simps [of A F mr q s0 w] split: sum.splits)
  from a obtain v0 supp where
    c: "calls s1 = calls s0 @ [ReasonCall (current_attempt s0)
          (effective_query F q (feedback s0)) (aggregated_context s0),
          ReviewCall (current_attempt s0) v0] @ supp"
    and supp: "(supp = [] \<and> aggregated_context s1 = aggregated_context s0
          \<and> (decision v0 = ACCEPT \<or> \<not> truthy (feedback_for_retriever v0)))
       \<or> (\<exists>fq ev. supp = [SupplementalCall (current_attempt s0) fq ev]
             \<and> aggregated_context s1 = aggregated_context s0 @ supplemental_segment F ev
             \<and> decision v0 \<noteq> ACCEPT \<and> feedback_for_retriever v0 = Some fq \<and> fq \<noteq> [])"
    and n: "current_attempt s1 = (if decision v0 = ACCEPT then current_attempt s0
                                  else Suc (current_attempt s0))"
    and fl: "fl = (if decision v0 = ACCEPT then Break else Continue)"
    by (rule attempt_log)
  from a have p: "plan s1 = plan s0" by (elim attemptE)
  from supp have "supp = [] \<or> (\<exists>fq ev. supp = [SupplementalCall (current_attempt s0) fq ev])"
    by blast
  note mem = attempt_log_mem(1) [OF c this]
  show ?thesis
  proof (cases "decision v0 = ACCEPT")
    case True
    with fl a l z have e: "s = s1"
      by (simp add: while_loop.simps [of A F mr q s0 w])
    from True supp have "supp = []" by auto
    with c z have cs: "calls s1 = calls s0 @ [ReasonCall 0 (effective_query F q (feedback s0))
          (aggregated_context s0), ReviewCall 0 v0]"
      by simp
    from m no have "v = v0" unfolding e mem z by auto
    with cs p e show ?thesis by auto
  next
    case False
    with fl a l z have l1: "while_loop A F mr q s1 w1 = Inr (s, w')"
      by (simp add: while_loop.simps [of A F mr q s0 w])
    from False n z have "current_attempt s1 = Suc 0" by simp
    with while_loop_later_reviews [OF l1] m have "ReviewCall 0 v \<in> set (calls s1)"
      by auto
    with no have "v = v0" unfolding mem z by auto
    with False acc show ?thesis by simp
  qed
qed

text \<open>
  Claim C8. In a run of either pipeline whose first verdict (the one of attempt 0) is
  ACCEPT, the calls of the retriever are exactly one call for each search query of the
  plan, in the plan's order, and no supplemental call is made.
\<close>

theorem first_accept_single_round:
  assumes "run_chat_pipeline K A user_query w = Inr (s, w')
           \<or> chat_pipeline A user_query w = Inr (s, w')"
    and "ReviewCall 0 v \<in> set (calls s)"
    and "decision v = ACCEPT"
  shows "\<exists>p. plan s = Some p
           \<and> filter (\<lambda>c. is_SearchCall c \<or> is_SupplementalCall c) (calls s)
               = map SearchCall (search_queries p)"
proof -
  from assms(2) have "calls s \<noteq> []" by auto
  with assms(1) obtain F where r: "pipeline A F user_query w = Inr (s, w')"
    by (auto simp: run_chat_pipeline_def chat_pipeline_def init_session_def split: if_splits)
  from r show ?thesis
  proof (cases rule: pipeline_cases)
    case no_plan
    with assms(2) show ?thesis by simp
  next
    case (planned p w1 s0 w2)
    have "\<forall>i v. ReviewCall i v \<notin> set (calls s0)"
      using planned(3) by auto
    from first_accept_loop [OF planned(6,4) this assms(2,3)]
    obtain u c where "calls s = calls s0 @ [ReasonCall 0 u c, ReviewCall 0 v]" "plan s = plan s0"
      by blast
    with planned(3,5) have "plan s = Some p"
      "filter (\<lambda>c. is_SearchCall c \<or> is_SupplementalCall c) (calls s)
         = map SearchCall (search_queries p)"
      by (simp_all add: filter_map comp_def)
    then show ?thesis by blast
  qed
qed

lemma accepting_run:
  "run_chat_pipeline example_console (scimuse_agents accepting_caps example_lib) ''Q'' () =
     Inr (\<lparr>plan = Some \<lparr>reasoning = ''JSON parsing failed, using original query.'',
                         search_queries = [''Q''], need_visual_understanding = False\<rparr>,
           aggregated_context = search_segment ''Q'' ''evidence'',
           current_attempt = 0, feedback = Some [],
           final_answer = Some \<lparr>draft_answer = ''draft'', citations = [],
                                 reasoning_trace = ''JSON Parse Error''\<rparr>,
           draft_output = Some \<lparr>draft_answer = ''draft'', citations = [],
                                 reasoning_trace = ''JSON Parse Error''\<rparr>,
           calls = [PlanCall ''Q'', SearchCall ''Q'',
                    ReasonCall 0 ''Q'' (search_segment ''Q'' ''evidence''),
                    ReviewCall 0 \<lparr>confidence_score = 1 / 10, decision = ACCEPT,
                                   critique = Some ''ok'', feedback_for_retriever = None\<rparr>]\<rparr>, ())"
  by (simp add: run_chat_pipeline_def pipeline_def print_plan_def final_output_def
        example_console_def init_session_def max_retries_def
        while_loop.simps attempt_def effective_query_def Let_def)

theorem first_accept_single_round_witness:
  "ReviewCall 0 \<lparr>confidence_score = 1 / 10, decision = ACCEPT, critique = Some ''ok'',
                 feedback_for_retriever = None\<rparr>
     \<in> set (final_calls (run_chat_pipeline example_console (scimuse_agents accepting_caps example_lib) ''Q'' ()))
   \<and> filter (\<lambda>c. is_SearchCall c \<or> is_SupplementalCall c)
        (final_calls (run_chat_pipeline example_console (scimuse_agents accepting_caps example_lib) ''Q'' ()))
       = [SearchCall ''Q'']"
  using first_accept_single_round [OF disjI1, OF accepting_run,
      of "\<lparr>confidence_score = 1 / 10, decision = ACCEPT, critique = Some ''ok'',
           feedback_for_retriever = None\<rparr>"]
  by (simp add: accepting_run final_calls_def)

lemma rescore_agents [simp]:
  "planner_plan (rescore g A) = planner_plan A"
  "retriever_run (rescore g A) = retriever_run A"
  "reasoner_run (rescore g A) = reasoner_run A"
  by (simp_all add: rescore_def)

lemma rescore_reviewer:
  "reviewer_review (rescore g A) q d w =
     (case reviewer_review A q d w of
        (Inl e, w') \<Rightarrow> (Inl e, w')
      | (Inr v, w') \<Rightarrow> (Inr (v\<lparr>confidence_score := g q d w\<rparr>), w'))"
  by (simp add: rescore_def)

lemma search_loop_rescore: "search_loop (rescore g A) F qs s w = search_loop A F qs s w"
  by (induction qs arbitrary: s w) (simp_all add: and_then_def split: prod.splits sum.splits)

lemma erase_scores_fields:
  assumes "erase_scores s2 = erase_scores s"
  shows "plan s2 = plan s" "aggregated_context s2 = aggregated_context s"
    "current_attempt s2 = current_attempt s" "feedback s2 = feedback s"
    "final_answer s2 = final_answer s" "draft_output s2 = draft_output s"
    "map erase_score (calls s2) = map erase_score (calls s)"
  using arg_cong [OF assms, of plan] arg_cong [OF assms, of aggregated_context]
    arg_cong [OF assms, of current_attempt] arg_cong [OF assms, of feedback]
    arg_cong [OF assms, of final_answer] arg_cong [OF assms, of draft_output]
    arg_cong [OF assms, of calls]
  by (simp_all add: erase_scores_def)

lemma erase_scores_eqI:
  assumes "plan s2 = plan s" "aggregated_context s2 = aggregated_context s"
    "current_attempt s2 = current_attempt s" "feedback s2 = feedback s"
    "final_answer s2 = final_answer s" "draft_output s2 = draft_output s"
    "map erase_score (calls s2) = map erase_score (calls s)"
  shows "erase_scores s2 = erase_scores s"
  using assms by (simp add: erase_scores_def session.equality)

lemma on_reject_rescore:
  assumes "erase_scores s2 = erase_scores s"
    and "critique v2 = critique v" "feedback_for_retriever v2 = feedback_for_retriever v"
  shows "without_scores (on_reject A F v2 s2 w) = without_scores (on_reject A F v s w)"
proof (cases "console_print F (CritiqueLine (critique v))")
  case (Inl e)
  with assms(2) show ?thesis by (simp add: on_reject_def)
next
  case cr: (Inr u)
  show ?thesis
  proof (cases "feedback_for_retriever v")
    case None
    with cr assms(2,3) erase_scores_fields [OF assms(1)] show ?thesis
      by (simp add: on_reject_def supplemental_search_def without_scores_def)
         (rule erase_scores_eqI; simp)
  next
    case (Some fq)
    show ?thesis
    proof (cases "fq = []")
      case True
      with cr Some assms(2,3) erase_scores_fields [OF assms(1)] show ?thesis
        by (simp add: on_reject_def supplemental_search_def without_scores_def)
           (rule erase_scores_eqI; simp)
    next
      case False
      show ?thesis
      proof (cases "console_print F (SupplementalLine fq)")
        case (Inl e)
        with cr Some False assms(2,3) show ?thesis
          by (simp add: on_reject_def supplemental_search_def without_scores_def)
      next
        case sp: (Inr u')
        obtain r w1 where rr: "retriever_run A fq w = (r, w1)" by (cases "retriever_run A fq w")
        show ?thesis
        proof (cases r)
          case (Inl e)
          with cr sp rr Some False assms(2,3) show ?thesis
            by (simp add: on_reject_def supplemental_search_def without_scores_def)
        next
          case (Inr ev)
          with cr sp rr Some False assms(2,3) erase_scores_fields [OF assms(1)] show ?thesis
            by (simp add: on_reject_def supplemental_search_def without_scores_def)
               (rule erase_scores_eqI; simp)
        qed
      qed
    qed
  qed
qed

lemma on_reject_rescore_agents: "on_reject (rescore g A) F v s w = on_reject A F v s w"
  by (simp add: on_reject_def supplemental_search_def and_then_def
        cong: option.case_cong if_cong sum.case_cong)

lemma erase_step_continue:
  "erase_step (and_then r (\<lambda>(s3, w3). Inr (Continue, s3, w3))) =
     (case without_scores r of Inl e \<Rightarrow> Inl e | Inr (s, w) \<Rightarrow> Inr (Continue, s, w))"
  by (cases r) (auto simp: erase_step_def without_scores_def)

lemma attempt_rescore:
  assumes "erase_scores s2 = erase_scores s"
  shows "erase_step (attempt (rescore g A) F q s2 w) = erase_step (attempt A F q s w)"
proof -
  note f = erase_scores_fields [OF assms]
  let ?eq = "effective_query F q (feedback s)"
  obtain r w1 where rr: "reasoner_run A ?eq (aggregated_context s) w = (r, w1)"
    by (cases "reasoner_run A ?eq (aggregated_context s) w")
  show ?thesis
  proof (cases r)
    case (Inl e)
    with rr f show ?thesis by (simp add: attempt_def erase_step_def Let_def)
  next
    case (Inr draft)
    show ?thesis
    proof (cases "console_print F (DraftPanel (draft_answer draft))")
      case (Inl e)
      with rr Inr f show ?thesis by (simp add: attempt_def erase_step_def Let_def)
    next
      case dp: (Inr u)
      obtain rv w2 where vv: "reviewer_review A q draft w1 = (rv, w2)"
        by (cases "reviewer_review A q draft w1")
      show ?thesis
      proof (cases rv)
        case (Inl e)
        with rr Inr dp vv f show ?thesis
          by (simp add: attempt_def erase_step_def Let_def rescore_reviewer)
      next
        case v: (Inr v)
        show ?thesis
        proof (cases "console_print F (DecisionLine (decision v))")
          case (Inl e)
          with rr Inr dp vv v f show ?thesis
            by (simp add: attempt_def erase_step_def Let_def rescore_reviewer)
        next
          case dl: (Inr u')
          let ?v2 = "v\<lparr>confidence_score := g q draft w1\<rparr>"
          let ?t = "s\<lparr>calls := calls s
                        @ [ReasonCall (current_attempt s) ?eq (aggregated_context s)],
                      draft_output := Some draft,
                      calls := (calls s
                        @ [ReasonCall (current_attempt s) ?eq (aggregated_context s)])
                        @ [ReviewCall (current_attempt s) v]\<rparr>"
          let ?t2 = "s2\<lparr>calls := calls s2
                        @ [ReasonCall (current_attempt s) ?eq (aggregated_context s)],
                      draft_output := Some draft,
                      calls := (calls s2
                        @ [ReasonCall (current_attempt s) ?eq (aggregated_context s)])
                        @ [ReviewCall (current_attempt s) ?v2]\<rparr>"
          have t: "erase_scores ?t2 = erase_scores ?t"
            using f by (intro erase_scores_eqI) simp_all
          show ?thesis
          proof (cases "decision v = ACCEPT")
            case True
            have "erase_scores (?t2\<lparr>final_answer := Some draft\<rparr>)
                  = erase_scores (?t\<lparr>final_answer := Some draft\<rparr>)"
              using f by (intro erase_scores_eqI) simp_all
            with True rr Inr dp dl vv v f show ?thesis
              by (simp add: attempt_def erase_step_def Let_def rescore_reviewer)
          next
            case False
            have "without_scores (on_reject A F ?v2 ?t2 w2)
                  = without_scores (on_reject A F v ?t w2)"
              by (rule on_reject_rescore [OF t]) simp_all
            with False rr Inr dp dl vv v f show ?thesis
              by (simp add: attempt_def Let_def rescore_reviewer on_reject_rescore_agents
                    erase_step_continue)
          qed
        qed
      qed
    qed
  qed
qed

lemma erase_step_Inl:
  "erase_step r = Inl e \<longleftrightarrow> r = Inl e"
  by (cases r) (auto simp: erase_step_def)

lemma erase_step_Inr:
  "erase_step r = Inr (fl, t, w) \<longleftrightarrow> (\<exists>s. r = Inr (fl, s, w) \<and> erase_scores s = t)"
  by (cases r) (auto simp: erase_step_def)

lemma while_loop_rescore:
  "erase_scores s2 = erase_scores s \<Longrightarrow>
     without_scores (while_loop (rescore g A) F mr q s2 w) = without_scores (while_loop A F mr q s w)"
proof (induction A F mr q s w arbitrary: s2 rule: while_loop.induct)
  case (1 A F mr q s w)
  note f = erase_scores_fields [OF "1.prems"]
  show ?case
  proof (cases "current_attempt s \<le> mr")
    case False
    with f "1.prems" show ?thesis
      by (simp add: while_loop.simps [of A F mr q s w]
            while_loop.simps [of "rescore g A" F mr q s2 w] without_scores_def)
  next
    case True
    note st = attempt_rescore [OF "1.prems", of g A F q w]
    show ?thesis
    proof (cases "attempt A F q s w")
      case (Inl e)
      with st have "erase_step (attempt (rescore g A) F q s2 w) = Inl e"
        by (simp add: erase_step_def)
      then have "attempt (rescore g A) F q s2 w = Inl e"
        by (simp only: erase_step_Inl)
      with Inl True f show ?thesis
        by (simp add: while_loop.simps [of A F mr q s w]
              while_loop.simps [of "rescore g A" F mr q s2 w])
    next
      case (Inr x)
      obtain fl s1 w1 where x: "x = (fl, s1, w1)" by (cases x)
      with Inr have a: "attempt A F q s w = Inr (fl, s1, w1)" by simp
      with st have "erase_step (attempt (rescore g A) F q s2 w) = Inr (fl, erase_scores s1, w1)"
        by (simp add: erase_step_def)
      then obtain t where a2: "attempt (rescore g A) F q s2 w = Inr (fl, t, w1)"
        and t: "erase_scores t = erase_scores s1"
        unfolding erase_step_Inr by blast
      show ?thesis
      proof (cases fl)
        case Break
        with a a2 t True f show ?thesis
          by (simp add: while_loop.simps [of A F mr q s w]
                while_loop.simps [of "rescore g A" F mr q s2 w] without_scores_def)
      next
        case Continue
        from "1.IH" [OF True a [unfolded Continue] refl refl refl t]
        show ?thesis
          using a a2 True f Continue
          by (simp add: while_loop.simps [of A F mr q s w]
                while_loop.simps [of "rescore g A" F mr q s2 w])
      qed
    qed
  qed
qed

lemma final_output_erased:
  assumes "erase_scores s2 = erase_scores s"
  shows "final_output F s2 = final_output F s"
  using erase_scores_fields [OF assms] by (simp add: final_output_def split: option.split)

lemma final_step_rescore:
  assumes "without_scores r2 = without_scores r"
  shows "without_scores
           (and_then r2 (\<lambda>(s', w3). and_then (final_output F s') (\<lambda>_. Inr (s', w3))))
         = without_scores
           (and_then r (\<lambda>(s', w3). and_then (final_output F s') (\<lambda>_. Inr (s', w3))))"
proof (cases r)
  case (Inl e)
  with assms show ?thesis by (cases r2) (auto simp: without_scores_def)
next
  case (Inr x)
  obtain s w where x: "x = (s, w)" by (cases x)
  with Inr assms obtain s2 where r2: "r2 = Inr (s2, w)" and e: "erase_scores s2 = erase_scores s"
    by (cases r2) (auto simp: without_scores_def)
  show ?thesis
    using Inr x r2 e final_output_erased [OF e, of F]
    by (cases "final_output F s") (simp_all add: without_scores_def)
qed

lemma pipeline_rescore:
  "without_scores (pipeline (rescore g A) F q w) = without_scores (pipeline A F q w)"
proof (cases "console_print F (QueryPanel q)")
  case (Inl e)
  then show ?thesis by (simp add: pipeline_def)
next
  case qp: (Inr u)
  obtain r w1 where Pair: "planner_plan A q w = (r, w1)" by (cases "planner_plan A q w")
  show ?thesis
  proof (cases r)
    case (Inl e)
    with qp Pair show ?thesis by (cases F) (simp_all add: pipeline_def)
  next
    case (Inr p)
    show ?thesis
    proof (cases "print_plan F p")
      case (Inl e)
      with qp Pair Inr show ?thesis by (simp add: pipeline_def)
    next
      case pp: (Inr u')
      show ?thesis
      proof (cases "search_loop A F (search_queries p)
          (init_session\<lparr>plan := Some p, calls := [PlanCall q]\<rparr>) w1")
        case (Inl e)
        with qp pp Pair Inr show ?thesis by (simp add: pipeline_def search_loop_rescore)
      next
        case sl: (Inr y)
        obtain s0 w2 where "y = (s0, w2)" by (cases y)
        with qp pp Pair Inr sl show ?thesis
          by (simp add: pipeline_def search_loop_rescore
                final_step_rescore [OF while_loop_rescore [OF refl]])
      qed
    qed
  qed
qed

lemma without_scores_outcome:
  assumes "without_scores r2 = without_scores r"
  shows "run_outcome r2 = run_outcome r"
proof (cases r)
  case (Inl e)
  with assms show ?thesis by (cases r2) (auto simp: without_scores_def run_outcome_def)
next
  case (Inr x)
  obtain s w where x: "x = (s, w)" by (cases x)
  with Inr assms obtain s2 where r2: "r2 = Inr (s2, w)" and e: "erase_scores s2 = erase_scores s"
    by (cases r2) (auto simp: without_scores_def)
  note f = erase_scores_fields [OF e]
  have "length (filter is_ReasonCall (map erase_score cs)) = length (filter is_ReasonCall cs)"
    for cs
  proof (induction cs)
    case Nil
    show ?case by simp
  next
    case (Cons c cs)
    then show ?case by (cases c) simp_all
  qed
  from this [of "calls s2"] this [of "calls s"] f(7)
  have "length (filter is_ReasonCall (calls s2)) = length (filter is_ReasonCall (calls s))"
    by simp
  with Inr x r2 f show ?thesis
    by (simp add: run_outcome_def accepted_def final_draft_def split: option.split)
qed

text \<open>
  Claim C9. Replace the score of every verdict by any other score, leaving the decision,
  the critique and the feedback as they are: the run of either pipeline is the same. It
  makes the same calls in the same order with the same arguments, leaves the same
  variables and the same outside world, and so records the same number of attempts, the
  same accepted status and the same final draft; only the scores in the logged verdicts
  differ.
\<close>

theorem score_not_control_flow:
  "without_scores (run_chat_pipeline K (rescore g A) user_query w)
     = without_scores (run_chat_pipeline K A user_query w)
   \<and> run_outcome (run_chat_pipeline K (rescore g A) user_query w)
     = run_outcome (run_chat_pipeline K A user_query w)
   \<and> without_scores (chat_pipeline (rescore g A) user_query w)
     = without_scores (chat_pipeline A user_query w)
   \<and> run_outcome (chat_pipeline (rescore g A) user_query w)
     = run_outcome (chat_pipeline A user_query w)"
proof -
  have 1: "without_scores (run_chat_pipeline K (rescore g A) user_query w)
     = without_scores (run_chat_pipeline K A user_query w)"
    by (simp add: run_chat_pipeline_def pipeline_rescore)
  have 2: "without_scores (chat_pipeline (rescore g A) user_query w)
     = without_scores (chat_pipeline A user_query w)"
    by (simp add: chat_pipeline_def pipeline_rescore)
  from 1 2 without_scores_outcome [OF 1] without_scores_outcome [OF 2] show ?thesis
    by (intro conjI)
qed

lemma failing_run_outcome:
  "run_outcome (run_chat_pipeline example_console (scimuse_agents failing_caps example_lib) ''Q'' ()) =
     Some (3, False,
       Some \<lparr>draft_answer = ''An error occurred while generating the answer: timeout'',
             citations = [], reasoning_trace = ''System Error''\<rparr>)"
  by (simp add: run_outcome_def accepted_def final_draft_def run_chat_pipeline_def pipeline_def
        print_plan_def final_output_def example_console_def
        init_session_def max_retries_def while_loop.simps attempt_def on_reject_def
        supplemental_search_def effective_query_def Let_def
        del: feedback_note.simps supplemental_segment.simps)

theorem score_not_control_flow_witness:
  "run_outcome (run_chat_pipeline example_console
      (rescore (\<lambda>query reasoner_output w. 1) (scimuse_agents failing_caps example_lib)) ''Q'' ()) =
     Some (3, False,
       Some \<lparr>draft_answer = ''An error occurred while generating the answer: timeout'',
             citations = [], reasoning_trace = ''System Error''\<rparr>)"
  using score_not_control_flow [of example_console "\<lambda>query reasoner_output w. 1"
      "scimuse_agents failing_caps example_lib" "''Q''" "()"]
  by (simp add: failing_run_outcome)

end
